theory Spec2Isabelle
  imports Complex_Main "HOL-Library.Sublist" "HOL-Library.Char_ord" "HOL-Library.List_Lexorder"
begin

section \<open>Python values and exceptions\<close>

text \<open>
  The values \<open>json.load\<close> and \<open>resp.json()\<close> produce: \<open>None\<close>, booleans, unbounded
  integers, floats, strings, lists and dicts. A JSON number with a fraction or an exponent
  is a finite decimal, so a float is carried as the rational it denotes; the scripts never
  compute with floats, they only pass them on. A dict is an association list read with
  \<open>map_of\<close>.
\<close>

datatype json =
    JNull
  | JBool bool
  | JInt int
  | JFloat rat
  | JStr string
  | JArr "json list"
  | JObj "(string \<times> json) list"

text \<open>The exceptions the two scripts can meet, by Python class.\<close>

datatype exn =
    IntegrityError string
  | ProgrammingError
  | OverflowError
  | OperationalError string
  | AttributeError
  | TypeError
  | ValueError
  | RuntimeError string
  | JSONDecodeError
  | RequestException

section \<open>The pagination helper (\<open>test.py\<close>, \<open>paginate\<close>)\<close>

text \<open>Python's \<open>data[lo:hi]\<close> for \<open>0 \<le> lo \<le> hi\<close>: out-of-range bounds are clipped.\<close>

definition slice :: "'a list \<Rightarrow> nat \<Rightarrow> nat \<Rightarrow> 'a list" where
  "slice data lo hi = take (hi - lo) (drop lo data)"

text \<open>
  The loop \<open>for i in range(0, len(data), batch_size): yield data[i:i + batch_size]\<close> for a
  positive step, from the index \<open>i\<close> on. The generator's yields are collected in order.
\<close>

function chunks_from :: "'a list \<Rightarrow> nat \<Rightarrow> nat \<Rightarrow> 'a list list" where
  "chunks_from data batch_size i =
     (if 0 < batch_size \<and> i < length data
      then slice data i (i + batch_size) # chunks_from data batch_size (i + batch_size)
      else [])"
  by pat_completeness auto
termination
  by (relation "measure (\<lambda>(data, batch_size, i). length data - i)") auto

declare chunks_from.simps [simp del]

text \<open>
  \<open>range\<close> raises \<open>ValueError\<close> for a zero step and is empty for a negative one.
\<close>

definition paginate :: "'a list \<Rightarrow> int \<Rightarrow> exn + 'a list list" where
  "paginate data batch_size =
     (if batch_size = 0 then Inl ValueError
      else if batch_size < 0 then Inr []
      else Inr (chunks_from data (nat batch_size) 0))"

section \<open>The Fetcher (\<open>test.py\<close>)\<close>

text \<open>
  Python's \<open>str\<close> of an integer, as an f-string prints it: decimal digits, with a leading
  minus sign for a negative number.
\<close>

definition digit_char :: "nat \<Rightarrow> char" where
  "digit_char d = ''0123456789'' ! d"

function digits :: "nat \<Rightarrow> string" where
  "digits n = (if n < 10 then [digit_char n] else digits (n div 10) @ [digit_char (n mod 10)])"
  by pat_completeness auto
termination
  by (relation "measure (\<lambda>n. n)") auto

declare digits.simps [simp del]

definition str_int :: "int \<Rightarrow> string" where
  "str_int i = (if i < 0 then CHR ''-'' # digits (nat (- i)) else digits (nat i))"

text \<open>
  \<open>len\<close> of a parsed JSON value: defined for lists, dicts and strings, \<open>TypeError\<close> for the
  rest.
\<close>

fun py_len :: "json \<Rightarrow> exn + nat" where
  "py_len (JArr xs) = Inr (length xs)"
| "py_len (JObj kvs) = Inr (length kvs)"
| "py_len (JStr s) = Inr (length s)"
| "py_len _ = Inl TypeError"

text \<open>
  The query text: the lines of the triple-quoted literal, to which the script applies
  \<open>.replace("\n", " ").strip()\<close>.
\<close>

definition query_literal :: "string list" where
  "query_literal =
     [[],
      ''    SELECT'',
      ''      pl_name,'',
      ''      hostname,'',
      ''      sy_dist,'',
      ''      pl_orbper,'',
      ''      pl_rade,'',
      ''      pl_bmasse,'',
      ''      pl_eqt,'',
      ''      pl_orbsmax,'',
      ''      pl_orbeccen,'',
      ''      st_spectype,'',
      ''      st_teff,'',
      ''      st_rad,'',
      ''      st_mass,'',
      ''      disc_year,'',
      ''      discoverymethod,'',
      ''      ra,'',
      ''      dec,'',
      ''      default_flag'',
      ''    FROM ps'',
      ''    WHERE default_flag = 1'',
      ''    ORDER BY disc_year DESC'',
      ''    '']"

text \<open>The lines of the literal are joined by the blank that replaces each newline.\<close>

fun join_blank :: "string list \<Rightarrow> string" where
  "join_blank [] = []"
| "join_blank [l] = l"
| "join_blank (l # ls) = l @ '' '' @ join_blank ls"

definition strip :: "string \<Rightarrow> string" where
  "strip s = rev (dropWhile (\<lambda>c. c = CHR '' '') (rev (dropWhile (\<lambda>c. c = CHR '' '') s)))"

definition query :: string where
  "query = strip (join_blank query_literal)"

record request =
  url :: string
  params :: "(string \<times> string) list"
  headers :: "(string \<times> string) list"
  timeout :: nat

definition fetch_request :: request where
  "fetch_request =
     \<lparr>url = ''https://exoplanetarchive.ipac.caltech.edu/TAP/sync'',
      params = [(''query'', query), (''format'', ''json'')],
      headers = [(''Accept'', ''application/json''),
                 (''User-Agent'', ''AstroSynth/1.0.0 (NASA Space Apps Challenge)'')],
      timeout = 120\<rparr>"

text \<open>
  What \<open>requests.get\<close> hands back: the status, the body as text, and what \<open>resp.json()\<close>
  makes of the body (the parsed value, or the decoder's exception).
\<close>

record response =
  status_code :: int
  body_text :: string
  body_json :: "exn + json"

text \<open>Console lines of the Fetcher.\<close>

datatype fetch_line =
    Requesting
  | Got nat
  | TotalFetched nat
  | Saved

text \<open>
  The world the Fetcher acts on: the requests sent so far, the files on disk (a file holds
  the document \<open>json.dump\<close> wrote), and the console.
\<close>

record world =
  sent :: "request list"
  files :: "string \<Rightarrow> json option"
  console :: "fetch_line list"

text \<open>
  \<open>fetch_all_exoplanets\<close>. The remote archive is the function \<open>http\<close>: a transport failure
  (timeout, connection error) is an exception raised by \<open>requests.get\<close>.
\<close>

definition fetch_all_exoplanets ::
  "(request \<Rightarrow> exn + response) \<Rightarrow> world \<Rightarrow> (exn + json) \<times> world" where
  "fetch_all_exoplanets http w =
     (let w1 = w\<lparr>console := console w @ [Requesting]\<rparr>;
          w2 = w1\<lparr>sent := sent w1 @ [fetch_request]\<rparr>
      in case http fetch_request of
           Inl e \<Rightarrow> (Inl e, w2)
         | Inr resp \<Rightarrow>
             if status_code resp \<noteq> 200
             then (Inl (RuntimeError (''HTTP '' @ str_int (status_code resp) @ '': ''
                                      @ take 200 (body_text resp))), w2)
             else (case body_json resp of
                     Inl e \<Rightarrow> (Inl e, w2)
                   | Inr data \<Rightarrow>
                       (case py_len data of
                          Inl e \<Rightarrow> (Inl e, w2)
                        | Inr n \<Rightarrow> (Inr data, w2\<lparr>console := console w2 @ [Got n]\<rparr>))))"

text \<open>
  The script body under \<open>__main__\<close>. An exception is not caught there: the script ends with
  it, and nothing after the raising statement runs.
\<close>

definition fetcher_main ::
  "(request \<Rightarrow> exn + response) \<Rightarrow> world \<Rightarrow> exn option \<times> world" where
  "fetcher_main http w =
     (case fetch_all_exoplanets http w of
        (Inl e, w1) \<Rightarrow> (Some e, w1)
      | (Inr planets, w1) \<Rightarrow>
          (case py_len planets of
             Inl e \<Rightarrow> (Some e, w1)
           | Inr n \<Rightarrow>
               (let w2 = w1\<lparr>console := console w1 @ [TotalFetched n]\<rparr>;
                    w3 = w2\<lparr>files := (files w2)(''Exoplanate.json'' \<mapsto> planets)\<rparr>
                in (None, w3\<lparr>console := console w3 @ [Saved]\<rparr>))))"

text \<open>A 404 answer and an empty world, for concrete runs.\<close>

definition not_found :: response where
  "not_found =
     \<lparr>status_code = 404, body_text = ''no such table'', body_json = Inl JSONDecodeError\<rparr>"

definition fresh_world :: world where
  "fresh_world = \<lparr>sent = [], files = (\<lambda>f. None), console = []\<rparr>"

definition server_error :: response where
  "server_error =
     \<lparr>status_code = 503, body_text = ''busy'', body_json = Inl JSONDecodeError\<rparr>"

section \<open>The relational store\<close>

text \<open>
  The store is SQLite, reached through Python's \<open>sqlite3\<close>. What the Loader relies on is
  modelled: typed values, column affinity, the \<open>NOT NULL\<close> and \<open>UNIQUE\<close> constraints, the
  automatic row identifier, the timestamp default, and a transaction that holds changes
  until \<open>commit\<close>.
\<close>

datatype sqlval =
    SNull
  | SInt int
  | SReal rat
  | SText string

datatype decl_type = TEXT | REAL | INTEGER | TIMESTAMP

datatype affinity = AffText | AffReal | AffInteger | AffNumeric

fun affinity_of :: "decl_type \<Rightarrow> affinity" where
  "affinity_of TEXT = AffText"
| "affinity_of REAL = AffReal"
| "affinity_of INTEGER = AffInteger"
| "affinity_of TIMESTAMP = AffNumeric"

datatype col_constraint =
    PrimaryKeyAutoincrement
  | NotNull
  | Unique
  | DefaultCurrentTimestamp

record column =
  col_name :: string
  col_type :: decl_type
  col_constraints :: "col_constraint list"

record index_def =
  idx_name :: string
  idx_column :: string

text \<open>A row gives every column of the table its value, in the order of the columns.\<close>

type_synonym row = "(string \<times> sqlval) list"

record table =
  tbl_columns :: "column list"
  tbl_indexes :: "index_def list"
  tbl_rows :: "row list"
  tbl_seq :: nat

text \<open>
  The database file as far as the Loader touches it: the table \<open>planets\<close>, when there is
  one.
\<close>

type_synonym database = "table option"

text \<open>
  What the engine decides and the model leaves open: the conversions of column affinity
  that change a value's representation (a number stored in a text column, text or a float
  stored in a numeric column), the value of \<open>CURRENT_TIMESTAMP\<close> at the \<open>n\<close>-th statement of
  a run, and the answer to the grouping query of the report.
\<close>

record engine =
  eng_convert :: "affinity \<Rightarrow> sqlval \<Rightarrow> sqlval"
  eng_now :: "nat \<Rightarrow> string"
  eng_top_groups :: "string \<Rightarrow> nat \<Rightarrow> row list \<Rightarrow> (sqlval \<times> nat) list"

text \<open>
  Column affinity. \<open>NULL\<close> is never converted, a value already in the column's class is
  kept, and an integer stored in a text column becomes its decimal text.
\<close>

fun apply_affinity :: "engine \<Rightarrow> affinity \<Rightarrow> sqlval \<Rightarrow> sqlval" where
  "apply_affinity eng a SNull = SNull"
| "apply_affinity eng AffText (SText s) = SText s"
| "apply_affinity eng AffText (SInt i) = SText (str_int i)"
| "apply_affinity eng AffInteger (SInt i) = SInt i"
| "apply_affinity eng AffNumeric (SInt i) = SInt i"
| "apply_affinity eng AffReal (SReal r) = SReal r"
| "apply_affinity eng a v = eng_convert eng a v"

text \<open>
  Binding a Python value to a \<open>?\<close> placeholder: \<open>None\<close> is \<open>NULL\<close>, a \<open>bool\<close> is an \<open>int\<close>, an
  integer must fit 64 bits (\<open>OverflowError\<close> otherwise), and a list or a dict is not a
  supported type.
\<close>

fun bind_param :: "json \<Rightarrow> exn + sqlval" where
  "bind_param JNull = Inr SNull"
| "bind_param (JBool b) = Inr (SInt (if b then 1 else 0))"
| "bind_param (JInt i) =
     (if - (2 ^ 63) \<le> i \<and> i < 2 ^ 63 then Inr (SInt i) else Inl OverflowError)"
| "bind_param (JFloat q) = Inr (SReal q)"
| "bind_param (JStr s) = Inr (SText s)"
| "bind_param (JArr xs) = Inl ProgrammingError"
| "bind_param (JObj kvs) = Inl ProgrammingError"

text \<open>The placeholders are bound in order; the first failure is the one raised.\<close>

fun bind_params :: "json list \<Rightarrow> exn + sqlval list" where
  "bind_params [] = Inr []"
| "bind_params (p # ps) =
     (case bind_param p of
        Inl e \<Rightarrow> Inl e
      | Inr v \<Rightarrow> (case bind_params ps of Inl e \<Rightarrow> Inl e | Inr vs \<Rightarrow> Inr (v # vs)))"

text \<open>The value of a column in a row; a column the row does not have reads as \<open>NULL\<close>.\<close>

definition cell :: "row \<Rightarrow> string \<Rightarrow> sqlval" where
  "cell r c = (case map_of r c of None \<Rightarrow> SNull | Some v \<Rightarrow> v)"

subsection \<open>Statements\<close>

text \<open>\<open>DROP TABLE IF EXISTS planets\<close>: the table goes, with its rows, indexes and sequence.\<close>

definition drop_table_if_exists :: "database \<Rightarrow> exn + database" where
  "drop_table_if_exists db = Inr None"

definition create_table :: "column list \<Rightarrow> database \<Rightarrow> exn + database" where
  "create_table cols db =
     (case db of
        Some t \<Rightarrow> Inl (OperationalError ''table planets already exists'')
      | None \<Rightarrow> Inr (Some \<lparr>tbl_columns = cols, tbl_indexes = [], tbl_rows = [], tbl_seq = 0\<rparr>))"

definition create_index :: "string \<Rightarrow> string \<Rightarrow> database \<Rightarrow> exn + database" where
  "create_index name c db =
     (case db of
        None \<Rightarrow> Inl (OperationalError ''no such table: main.planets'')
      | Some t \<Rightarrow>
          if name \<in> set (map idx_name (tbl_indexes t))
          then Inl (OperationalError (''index '' @ name @ '' already exists''))
          else if c \<notin> set (map col_name (tbl_columns t))
          then Inl (OperationalError (''no such column: '' @ c))
          else Inr (Some (t\<lparr>tbl_indexes := tbl_indexes t @ [\<lparr>idx_name = name, idx_column = c\<rparr>]\<rparr>)))"

text \<open>
  The value a new row gets in a column: the value supplied for it, or else the next
  row identifier, the current timestamp, or \<open>NULL\<close>, and then the column's affinity.
\<close>

definition column_value ::
  "engine \<Rightarrow> string \<Rightarrow> nat \<Rightarrow> (string \<Rightarrow> sqlval option) \<Rightarrow> column \<Rightarrow> sqlval" where
  "column_value eng now sq supplied c =
     apply_affinity eng (affinity_of (col_type c))
       (case supplied (col_name c) of
          Some v \<Rightarrow> v
        | None \<Rightarrow>
            if PrimaryKeyAutoincrement \<in> set (col_constraints c) then SInt (int sq + 1)
            else if DefaultCurrentTimestamp \<in> set (col_constraints c) then SText now
            else SNull)"

text \<open>
  \<open>INSERT INTO planets (cols) VALUES (vals)\<close>, as the \<open>k\<close>-th statement of the run. A
  constraint that fails raises \<open>IntegrityError\<close> and leaves the table as it was; \<open>NOT NULL\<close>
  is checked before \<open>UNIQUE\<close>, and \<open>NULL\<close> never collides under \<open>UNIQUE\<close>.
\<close>

definition insert_into ::
  "engine \<Rightarrow> nat \<Rightarrow> string list \<Rightarrow> sqlval list \<Rightarrow> database \<Rightarrow> exn + database" where
  "insert_into eng k cols vals db =
     (case db of
        None \<Rightarrow> Inl (OperationalError ''no such table: planets'')
      | Some t \<Rightarrow>
          if \<not> list_all (\<lambda>c. c \<in> set (map col_name (tbl_columns t))) cols
          then Inl (OperationalError ''table planets has no such column'')
          else
            let r = map (\<lambda>c. (col_name c,
                              column_value eng (eng_now eng k) (tbl_seq t) (map_of (zip cols vals)) c))
                        (tbl_columns t)
            in case find (\<lambda>c. NotNull \<in> set (col_constraints c) \<and> cell r (col_name c) = SNull)
                         (tbl_columns t) of
                 Some c \<Rightarrow> Inl (IntegrityError (''NOT NULL constraint failed: planets.'' @ col_name c))
               | None \<Rightarrow>
                   (case find (\<lambda>c. Unique \<in> set (col_constraints c)
                                     \<and> cell r (col_name c) \<noteq> SNull
                                     \<and> list_ex (\<lambda>r'. cell r' (col_name c) = cell r (col_name c))
                                                (tbl_rows t))
                               (tbl_columns t) of
                      Some c \<Rightarrow>
                        Inl (IntegrityError (''UNIQUE constraint failed: planets.'' @ col_name c))
                    | None \<Rightarrow>
                        Inr (Some (t\<lparr>tbl_rows := tbl_rows t @ [r], tbl_seq := tbl_seq t + 1\<rparr>))))"

text \<open>Statements executed one after the other; the first exception ends the sequence.\<close>

fun execute_all :: "(database \<Rightarrow> exn + database) list \<Rightarrow> database \<Rightarrow> exn + database" where
  "execute_all [] db = Inr db"
| "execute_all (stmt # stmts) db =
     (case stmt db of Inl e \<Rightarrow> Inl e | Inr db' \<Rightarrow> execute_all stmts db')"

subsection \<open>Ordering of values and the \<open>MIN\<close> and \<open>MAX\<close> aggregates\<close>

text \<open>
  SQLite orders \<open>NULL\<close> first, then the numbers by value (integers and reals together),
  then text, byte by byte.
\<close>

fun sql_rank :: "sqlval \<Rightarrow> nat" where
  "sql_rank SNull = 0"
| "sql_rank (SInt i) = 1"
| "sql_rank (SReal r) = 1"
| "sql_rank (SText s) = 2"

fun sql_less :: "sqlval \<Rightarrow> sqlval \<Rightarrow> bool" where
  "sql_less (SInt a) (SInt b) = (a < b)"
| "sql_less (SInt a) (SReal b) = (of_int a < b)"
| "sql_less (SReal a) (SInt b) = (a < of_int b)"
| "sql_less (SReal a) (SReal b) = (a < b)"
| "sql_less (SText a) (SText b) = (a < b)"
| "sql_less a b = (sql_rank a < sql_rank b)"

text \<open>
  The aggregates keep the first value met and replace it only by a strictly better one;
  over no rows at all they give \<open>NULL\<close>.
\<close>

fun sql_min :: "sqlval list \<Rightarrow> sqlval" where
  "sql_min [] = SNull"
| "sql_min (v # vs) = foldl (\<lambda>m y. if sql_less y m then y else m) v vs"

fun sql_max :: "sqlval list \<Rightarrow> sqlval" where
  "sql_max [] = SNull"
| "sql_max (v # vs) = foldl (\<lambda>m y. if sql_less m y then y else m) v vs"

text \<open>\<open>SELECT MIN(c), MAX(c) FROM planets WHERE c IS NOT NULL\<close>.\<close>

definition select_min_max_not_null :: "string \<Rightarrow> table \<Rightarrow> sqlval \<times> sqlval" where
  "select_min_max_not_null c t =
     (let vs = filter (\<lambda>v. v \<noteq> SNull) (map (\<lambda>r. cell r c) (tbl_rows t))
      in (sql_min vs, sql_max vs))"

text \<open>\<open>SELECT COUNT(*) FROM planets\<close>.\<close>

definition select_count :: "table \<Rightarrow> nat" where
  "select_count t = length (tbl_rows t)"

subsection \<open>The connection\<close>

text \<open>
  A connection sees its own uncommitted changes; \<open>commit\<close> makes them durable. What is not
  committed when the process ends is lost.
\<close>

record connection =
  on_disk :: database
  in_txn :: database

definition connect :: "database \<Rightarrow> connection" where
  "connect db_file = \<lparr>on_disk = db_file, in_txn = db_file\<rparr>"

definition commit :: "connection \<Rightarrow> connection" where
  "commit c = c\<lparr>on_disk := in_txn c\<rparr>"

definition close :: "connection \<Rightarrow> connection" where
  "close c = c\<lparr>in_txn := on_disk c\<rparr>"

section \<open>The Loader (\<open>migrate_to_sqlite.py\<close>)\<close>

subsection \<open>\<open>create_database\<close>\<close>

definition planets_columns :: "column list" where
  "planets_columns =
     [\<lparr>col_name = ''id'', col_type = INTEGER, col_constraints = [PrimaryKeyAutoincrement]\<rparr>,
      \<lparr>col_name = ''pl_name'', col_type = TEXT, col_constraints = [NotNull, Unique]\<rparr>,
      \<lparr>col_name = ''hostname'', col_type = TEXT, col_constraints = []\<rparr>,
      \<lparr>col_name = ''sy_dist'', col_type = REAL, col_constraints = []\<rparr>,
      \<lparr>col_name = ''pl_orbper'', col_type = REAL, col_constraints = []\<rparr>,
      \<lparr>col_name = ''pl_rade'', col_type = REAL, col_constraints = []\<rparr>,
      \<lparr>col_name = ''pl_bmasse'', col_type = REAL, col_constraints = []\<rparr>,
      \<lparr>col_name = ''pl_eqt'', col_type = REAL, col_constraints = []\<rparr>,
      \<lparr>col_name = ''pl_orbsmax'', col_type = REAL, col_constraints = []\<rparr>,
      \<lparr>col_name = ''pl_orbeccen'', col_type = REAL, col_constraints = []\<rparr>,
      \<lparr>col_name = ''st_spectype'', col_type = TEXT, col_constraints = []\<rparr>,
      \<lparr>col_name = ''st_teff'', col_type = REAL, col_constraints = []\<rparr>,
      \<lparr>col_name = ''st_rad'', col_type = REAL, col_constraints = []\<rparr>,
      \<lparr>col_name = ''st_mass'', col_type = REAL, col_constraints = []\<rparr>,
      \<lparr>col_name = ''disc_year'', col_type = INTEGER, col_constraints = []\<rparr>,
      \<lparr>col_name = ''discoverymethod'', col_type = TEXT, col_constraints = []\<rparr>,
      \<lparr>col_name = ''ra'', col_type = REAL, col_constraints = []\<rparr>,
      \<lparr>col_name = ''dec'', col_type = REAL, col_constraints = []\<rparr>,
      \<lparr>col_name = ''default_flag'', col_type = INTEGER, col_constraints = []\<rparr>,
      \<lparr>col_name = ''created_at'', col_type = TIMESTAMP,
       col_constraints = [DefaultCurrentTimestamp]\<rparr>]"

text \<open>
  The statements of \<open>create_database\<close> in order, then \<open>conn.commit()\<close>. An exception leaves
  the function before the connection is returned.
\<close>

definition create_database :: "database \<Rightarrow> exn + connection" where
  "create_database db_file =
     (let conn = connect db_file
      in case execute_all
                [drop_table_if_exists,
                 create_table planets_columns,
                 create_index ''idx_pl_name'' ''pl_name'',
                 create_index ''idx_disc_year'' ''disc_year'',
                 create_index ''idx_discoverymethod'' ''discoverymethod'',
                 create_index ''idx_pl_rade'' ''pl_rade'',
                 create_index ''idx_pl_bmasse'' ''pl_bmasse'',
                 create_index ''idx_st_teff'' ''st_teff'',
                 create_index ''idx_sy_dist'' ''sy_dist'']
                (in_txn conn) of
           Inl e \<Rightarrow> Inl e
         | Inr db \<Rightarrow> Inr (commit (conn\<lparr>in_txn := db\<rparr>)))"

subsection \<open>\<open>migrate_json_to_sqlite\<close>\<close>

text \<open>\<open>d.get(k)\<close> and \<open>d.get(k, default)\<close> on a dict.\<close>

definition dict_get :: "(string \<times> json) list \<Rightarrow> string \<Rightarrow> json" where
  "dict_get d k = (case map_of d k of None \<Rightarrow> JNull | Some v \<Rightarrow> v)"

definition dict_get_default :: "(string \<times> json) list \<Rightarrow> string \<Rightarrow> json \<Rightarrow> json" where
  "dict_get_default d k dflt = (case map_of d k of None \<Rightarrow> dflt | Some v \<Rightarrow> v)"

text \<open>
  \<open>planet.get(k)\<close> on an element of the input array: only a dict has the method, any other
  value raises \<open>AttributeError\<close>.
\<close>

fun py_get :: "json \<Rightarrow> string \<Rightarrow> exn + json" where
  "py_get (JObj d) k = Inr (dict_get d k)"
| "py_get v k = Inl AttributeError"

text \<open>The column list of the \<open>INSERT\<close> statement.\<close>

definition insert_columns :: "string list" where
  "insert_columns =
     [''pl_name'', ''hostname'', ''sy_dist'', ''pl_orbper'', ''pl_rade'',
      ''pl_bmasse'', ''pl_eqt'', ''pl_orbsmax'', ''pl_orbeccen'',
      ''st_spectype'', ''st_teff'', ''st_rad'', ''st_mass'',
      ''disc_year'', ''discoverymethod'', ''ra'', ''dec'', ''default_flag'']"

text \<open>The tuple of parameters of the \<open>INSERT\<close> statement.\<close>

fun insert_parameters :: "json \<Rightarrow> exn + json list" where
  "insert_parameters (JObj planet) =
     Inr [dict_get planet ''pl_name'',
          dict_get planet ''hostname'',
          dict_get planet ''sy_dist'',
          dict_get planet ''pl_orbper'',
          dict_get planet ''pl_rade'',
          dict_get planet ''pl_bmasse'',
          dict_get planet ''pl_eqt'',
          dict_get planet ''pl_orbsmax'',
          dict_get planet ''pl_orbeccen'',
          dict_get planet ''st_spectype'',
          dict_get planet ''st_teff'',
          dict_get planet ''st_rad'',
          dict_get planet ''st_mass'',
          dict_get planet ''disc_year'',
          dict_get planet ''discoverymethod'',
          dict_get planet ''ra'',
          dict_get planet ''dec'',
          dict_get_default planet ''default_flag'' (JInt 1)]"
| "insert_parameters v = Inl AttributeError"

text \<open>Console lines of the Loader.\<close>

datatype line =
    Reading
  | Loaded nat
  | Creating
  | WarningSkipped json string
  | ErrorFailed json exn
  | Progress nat nat nat
  | Complete
  | TotalInDatabase nat
  | InsertedSkipped nat nat
  | TopMethods "(sqlval \<times> nat) list"
  | DiscoveryYears sqlval sqlval
  | DoneSaved

record run_state =
  conn :: connection
  inserted :: nat
  skipped :: nat
  printed :: "line list"

text \<open>
  The body of the \<open>try\<close>: the parameters are evaluated, bound, and the row is inserted; only
  then is \<open>inserted\<close> incremented. The statement is the \<open>(inserted + skipped)\<close>-th of the
  run.
\<close>

definition try_insert :: "engine \<Rightarrow> json \<Rightarrow> run_state \<Rightarrow> exn + run_state" where
  "try_insert eng planet s =
     (case insert_parameters planet of
        Inl e \<Rightarrow> Inl e
      | Inr ps \<Rightarrow>
          (case bind_params ps of
             Inl e \<Rightarrow> Inl e
           | Inr vs \<Rightarrow>
               (case insert_into eng (inserted s + skipped s) insert_columns vs (in_txn (conn s)) of
                  Inl e \<Rightarrow> Inl e
                | Inr db \<Rightarrow> Inr (s\<lparr>conn := (conn s)\<lparr>in_txn := db\<rparr>, inserted := inserted s + 1\<rparr>))))"

text \<open>
  One pass of the inner loop with its two handlers. Either handler increments \<open>skipped\<close>
  and, while \<open>skipped \<le> 5\<close>, prints a line that calls \<open>planet.get("pl_name")\<close> again; an
  exception raised there is raised inside the handler and leaves the loops.
\<close>

definition process_planet :: "engine \<Rightarrow> json \<Rightarrow> run_state \<Rightarrow> exn option \<times> run_state" where
  "process_planet eng planet s =
     (case try_insert eng planet s of
        Inr s' \<Rightarrow> (None, s')
      | Inl e \<Rightarrow>
          (let s1 = s\<lparr>skipped := skipped s + 1\<rparr>
           in if skipped s1 \<le> 5
              then (case py_get planet ''pl_name'' of
                      Inl e' \<Rightarrow> (Some e', s1)
                    | Inr name \<Rightarrow>
                        (case e of
                           IntegrityError msg \<Rightarrow>
                             (None, s1\<lparr>printed := printed s1 @ [WarningSkipped name msg]\<rparr>)
                         | _ \<Rightarrow> (None, s1\<lparr>printed := printed s1 @ [ErrorFailed name e]\<rparr>)))
              else (None, s1)))"

text \<open>The inner loop \<open>for planet in batch\<close>.\<close>

fun insert_batch :: "engine \<Rightarrow> json list \<Rightarrow> run_state \<Rightarrow> exn option \<times> run_state" where
  "insert_batch eng [] s = (None, s)"
| "insert_batch eng (planet # batch) s =
     (case process_planet eng planet s of
        (Some e, s') \<Rightarrow> (Some e, s')
      | (None, s') \<Rightarrow> insert_batch eng batch s')"

definition migrate_batch_size :: nat where
  "migrate_batch_size = 100"

text \<open>
  The outer loop \<open>for i in range(0, len(planets), batch_size)\<close> from the index \<open>i\<close> on: the
  batch is inserted, committed, and the progress line printed.
\<close>

function insert_batches ::
  "engine \<Rightarrow> json list \<Rightarrow> nat \<Rightarrow> run_state \<Rightarrow> exn option \<times> run_state" where
  "insert_batches eng planets i s =
     (if i < length planets
      then (case insert_batch eng (slice planets i (i + migrate_batch_size)) s of
              (Some e, s') \<Rightarrow> (Some e, s')
            | (None, s') \<Rightarrow>
                (let s1 = s'\<lparr>conn := commit (conn s')\<rparr>;
                     s2 = s1\<lparr>printed := printed s1
                                   @ [Progress (inserted s1) (length planets) (skipped s1)]\<rparr>
                 in insert_batches eng planets (i + migrate_batch_size) s2))
      else (None, s))"
  by pat_completeness auto
termination
  by (relation "measure (\<lambda>(eng, planets, i, s). length planets - i)")
     (auto simp: migrate_batch_size_def)

declare insert_batches.simps [simp del]

text \<open>
  The report after the loop. The statements read the table through the connection; a
  missing table would raise \<open>OperationalError\<close>. The connection is closed at the end.
\<close>

definition report :: "engine \<Rightarrow> run_state \<Rightarrow> exn option \<times> run_state" where
  "report eng s =
     (case in_txn (conn s) of
        None \<Rightarrow> (Some (OperationalError ''no such table: planets''), s)
      | Some t \<Rightarrow>
          (let count = select_count t;
               s1 = s\<lparr>printed := printed s
                            @ [Complete, TotalInDatabase count,
                               InsertedSkipped (inserted s) (skipped s)]\<rparr>;
               methods = eng_top_groups eng ''discoverymethod'' 5 (tbl_rows t);
               s2 = s1\<lparr>printed := printed s1 @ [TopMethods methods]\<rparr>;
               (min_year, max_year) = select_min_max_not_null ''disc_year'' t;
               s3 = s2\<lparr>printed := printed s2 @ [DiscoveryYears min_year max_year]\<rparr>;
               s4 = s3\<lparr>conn := close (conn s3)\<rparr>
           in (None, s4\<lparr>printed := printed s4 @ [DoneSaved]\<rparr>)))"

text \<open>
  \<open>migrate_json_to_sqlite\<close>, given the array \<open>json.load\<close> read and the database file found
  at \<open>db_path\<close>. The result is the exception that ended the run, if any, and the state
  reached; what the run leaves on disk is \<open>on_disk\<close> of its connection.
\<close>

definition migrate_json_to_sqlite ::
  "engine \<Rightarrow> json list \<Rightarrow> database \<Rightarrow> exn option \<times> run_state" where
  "migrate_json_to_sqlite eng planets db_file =
     (let out = [Reading, Loaded (length planets), Creating]
      in case create_database db_file of
           Inl e \<Rightarrow>
             (Some e, \<lparr>conn = connect db_file, inserted = 0, skipped = 0, printed = out\<rparr>)
         | Inr c \<Rightarrow>
             (case insert_batches eng planets 0
                     \<lparr>conn = c, inserted = 0, skipped = 0, printed = out\<rparr> of
                (Some e, s) \<Rightarrow> (Some e, s)
              | (None, s) \<Rightarrow> report eng s))"

text \<open>The rows a run leaves in the destination table.\<close>

definition persisted_rows :: "exn option \<times> run_state \<Rightarrow> row list" where
  "persisted_rows res =
     (case on_disk (conn (snd res)) of None \<Rightarrow> [] | Some t \<Rightarrow> tbl_rows t)"

section \<open>Notions used to state the properties of the Loader\<close>

text \<open>The table as \<open>create_database\<close> leaves it, and the row an \<open>INSERT\<close> builds.\<close>

definition planets_table0 :: table where
  "planets_table0 =
     \<lparr>tbl_columns = planets_columns,
      tbl_indexes =
        [\<lparr>idx_name = ''idx_pl_name'', idx_column = ''pl_name''\<rparr>,
         \<lparr>idx_name = ''idx_disc_year'', idx_column = ''disc_year''\<rparr>,
         \<lparr>idx_name = ''idx_discoverymethod'', idx_column = ''discoverymethod''\<rparr>,
         \<lparr>idx_name = ''idx_pl_rade'', idx_column = ''pl_rade''\<rparr>,
         \<lparr>idx_name = ''idx_pl_bmasse'', idx_column = ''pl_bmasse''\<rparr>,
         \<lparr>idx_name = ''idx_st_teff'', idx_column = ''st_teff''\<rparr>,
         \<lparr>idx_name = ''idx_sy_dist'', idx_column = ''sy_dist''\<rparr>],
      tbl_rows = [], tbl_seq = 0\<rparr>"

definition new_row :: "engine \<Rightarrow> nat \<Rightarrow> nat \<Rightarrow> sqlval list \<Rightarrow> row" where
  "new_row eng k sq vals =
     map (\<lambda>c. (col_name c, column_value eng (eng_now eng k) sq (map_of (zip insert_columns vals)) c))
         planets_columns"

definition bound_values :: "json \<Rightarrow> exn + sqlval list" where
  "bound_values planet =
     (case insert_parameters planet of Inl e \<Rightarrow> Inl e | Inr ps \<Rightarrow> bind_params ps)"

definition record_values :: "json \<Rightarrow> sqlval list" where
  "record_values planet = (case bound_values planet of Inl e \<Rightarrow> [] | Inr vs \<Rightarrow> vs)"

definition record_name :: "engine \<Rightarrow> json \<Rightarrow> sqlval" where
  "record_name eng planet =
     (case bound_values planet of
        Inl e \<Rightarrow> SNull
      | Inr vs \<Rightarrow> apply_affinity eng AffText (hd vs))"

definition insert_error :: "engine \<Rightarrow> json \<Rightarrow> exn" where
  "insert_error eng planet =
     (case bound_values planet of
        Inl e \<Rightarrow> e
      | Inr vs \<Rightarrow>
          if apply_affinity eng AffText (hd vs) = SNull
          then IntegrityError ''NOT NULL constraint failed: planets.pl_name''
          else IntegrityError ''UNIQUE constraint failed: planets.pl_name'')"

definition table_names :: "table \<Rightarrow> sqlval list" where
  "table_names t = map (\<lambda>r. cell r ''pl_name'') (tbl_rows t)"

definition insert_row :: "engine \<Rightarrow> json \<Rightarrow> run_state \<Rightarrow> table \<Rightarrow> run_state" where
  "insert_row eng planet s t =
     s\<lparr>conn := (conn s)\<lparr>in_txn := Some (t\<lparr>tbl_rows := tbl_rows t
                       @ [new_row eng (inserted s + skipped s) (tbl_seq t) (record_values planet)],
                     tbl_seq := tbl_seq t + 1\<rparr>)\<rparr>,
       inserted := inserted s + 1\<rparr>"

definition skip_line :: "json \<Rightarrow> exn \<Rightarrow> line" where
  "skip_line name e =
     (case e of IntegrityError msg \<Rightarrow> WarningSkipped name msg | _ \<Rightarrow> ErrorFailed name e)"

definition accepts :: "engine \<Rightarrow> row list \<Rightarrow> json \<Rightarrow> bool" where
  "accepts eng rs p =
     (record_name eng p \<noteq> SNull \<and> record_name eng p \<notin> set (map (\<lambda>r. cell r ''pl_name'') rs))"

definition load_step :: "engine \<Rightarrow> row list \<Rightarrow> nat \<times> json \<Rightarrow> row list" where
  "load_step eng rs kp =
     (if accepts eng rs (snd kp)
      then rs @ [new_row eng (fst kp) (length rs) (record_values (snd kp))]
      else rs)"

definition loaded_rows :: "engine \<Rightarrow> json list \<Rightarrow> row list" where
  "loaded_rows eng pre = foldl (load_step eng) [] (zip [0..<length pre] pre)"

definition skip_lines_of :: "engine \<Rightarrow> row list \<Rightarrow> json \<Rightarrow> line list" where
  "skip_lines_of eng rs p =
     (if accepts eng rs p then []
      else (case py_get p ''pl_name'' of
              Inl e \<Rightarrow> []
            | Inr name \<Rightarrow> [skip_line name (insert_error eng p)]))"

definition skip_lines_at :: "engine \<Rightarrow> json list \<Rightarrow> nat \<Rightarrow> line list" where
  "skip_lines_at eng pre k = skip_lines_of eng (loaded_rows eng (take k pre)) (pre ! k)"

definition all_skip_lines :: "engine \<Rightarrow> json list \<Rightarrow> line list" where
  "all_skip_lines eng pre = concat (map (skip_lines_at eng pre) [0..<length pre])"

fun is_skip_line :: "line \<Rightarrow> bool" where
  "is_skip_line (WarningSkipped name msg) = True"
| "is_skip_line (ErrorFailed name e) = True"
| "is_skip_line l = False"

fun is_object :: "json \<Rightarrow> bool" where
  "is_object (JObj d) = True"
| "is_object v = False"

definition loader_inv :: "engine \<Rightarrow> json list \<Rightarrow> run_state \<Rightarrow> bool" where
  "loader_inv eng pre s =
     (\<exists>t td. in_txn (conn s) = Some t \<and> on_disk (conn s) = Some td
        \<and> tbl_columns t = planets_columns
        \<and> tbl_rows t = loaded_rows eng pre
        \<and> prefix (tbl_rows td) (tbl_rows t)
        \<and> tbl_seq t = length (tbl_rows t)
        \<and> inserted s = length (tbl_rows t)
        \<and> inserted s + skipped s = length pre
        \<and> length (filter is_skip_line (printed s)) \<le> 5
        \<and> length (filter is_skip_line (printed s)) \<le> skipped s
        \<and> (list_all is_object pre \<longrightarrow>
              filter is_skip_line (printed s) = take 5 (all_skip_lines eng pre)
              \<and> skipped s = length (all_skip_lines eng pre)))"

definition start_state :: "json list \<Rightarrow> run_state" where
  "start_state planets =
     \<lparr>conn = \<lparr>on_disk = Some planets_table0, in_txn = Some planets_table0\<rparr>,
      inserted = 0, skipped = 0,
      printed = [Reading, Loaded (length planets), Creating]\<rparr>"

definition year_values :: "row list \<Rightarrow> sqlval list" where
  "year_values rs = filter (\<lambda>v. v \<noteq> SNull) (map (\<lambda>r. cell r ''disc_year'') rs)"

definition report_lines :: "engine \<Rightarrow> run_state \<Rightarrow> row list \<Rightarrow> line list" where
  "report_lines eng s rs =
     [Complete, TotalInDatabase (length rs), InsertedSkipped (inserted s) (skipped s),
      TopMethods (eng_top_groups eng ''discoverymethod'' 5 rs),
      DiscoveryYears (sql_min (year_values rs)) (sql_max (year_values rs)),
      DoneSaved]"

definition record_fields :: "string list" where
  "record_fields =
     [''pl_name'', ''hostname'', ''sy_dist'', ''pl_orbper'', ''pl_rade'',
      ''pl_bmasse'', ''pl_eqt'', ''pl_orbsmax'', ''pl_orbeccen'',
      ''st_spectype'', ''st_teff'', ''st_rad'', ''st_mass'',
      ''disc_year'', ''discoverymethod'', ''ra'', ''dec'', ''default_flag'']"

fun field :: "json \<Rightarrow> string \<Rightarrow> json option" where
  "field (JObj d) f = map_of d f"
| "field v f = None"

fun storable :: "json \<Rightarrow> bool" where
  "storable JNull = True"
| "storable (JBool b) = True"
| "storable (JInt i) = (- (2 ^ 63) \<le> i \<and> i < 2 ^ 63)"
| "storable (JFloat q) = True"
| "storable (JStr s) = True"
| "storable (JArr xs) = False"
| "storable (JObj d) = False"

definition name_text :: "json \<Rightarrow> string option" where
  "name_text p = (case field p ''pl_name'' of Some (JStr s) \<Rightarrow> Some s | _ \<Rightarrow> None)"

definition malformed :: "json \<Rightarrow> bool" where
  "malformed p =
     (\<not> is_object p \<or> name_text p = None
      \<or> list_ex (\<lambda>f. case field p f of None \<Rightarrow> False | Some v \<Rightarrow> \<not> storable v) record_fields)"

definition valid_record :: "json \<Rightarrow> bool" where
  "valid_record p =
     (is_object p \<and>
      (case field p ''pl_name'' of
         None \<Rightarrow> True | Some JNull \<Rightarrow> True | Some (JStr s) \<Rightarrow> True | Some v \<Rightarrow> False))"

definition plain_engine :: engine where
  "plain_engine =
     \<lparr>eng_convert = (\<lambda>a v. v),
      eng_now = (\<lambda>k. ''2025-10-04 12:00:00''),
      eng_top_groups = (\<lambda>c n rs. [])\<rparr>"

definition kepler :: json where
  "kepler = JObj [(''pl_name'', JStr ''Kepler-22 b''), (''hostname'', JStr ''Kepler-22''),
                  (''disc_year'', JInt 2011)]"

definition kepler_again :: json where
  "kepler_again = JObj [(''pl_name'', JStr ''Kepler-22 b''), (''hostname'', JStr ''elsewhere''),
                        (''disc_year'', JInt 1999), (''default_flag'', JInt 0)]"

definition nameless :: json where
  "nameless = JObj [(''hostname'', JStr ''HD 1''), (''disc_year'', JInt 1990)]"

definition broken :: json where
  "broken = JObj [(''pl_name'', JStr ''X''), (''sy_dist'', JArr [])]"

definition peg :: json where
  "peg = JObj [(''pl_name'', JStr ''51 Peg b''), (''disc_year'', JInt 1995),
               (''default_flag'', JNull)]"

definition example_planets :: "json list" where
  "example_planets = [kepler, kepler_again, nameless, broken, peg]"

fun stored :: "json \<Rightarrow> sqlval" where
  "stored JNull = SNull"
| "stored (JBool b) = SInt (if b then 1 else 0)"
| "stored (JInt i) = SInt i"
| "stored (JFloat q) = SReal q"
| "stored (JStr s) = SText s"
| "stored (JArr xs) = SNull"
| "stored (JObj d) = SNull"

definition field_value :: "json \<Rightarrow> string \<Rightarrow> json" where
  "field_value p f =
     (case field p f of
        None \<Rightarrow> (if f = ''default_flag'' then JInt 1 else JNull)
      | Some v \<Rightarrow> v)"

definition stored_names :: "json list \<Rightarrow> string list" where
  "stored_names planets = map (\<lambda>p. the (name_text p)) (filter (\<lambda>p. \<not> malformed p) planets)"

section \<open>Properties of the pagination helper\<close>

lemma chunks_from_step:
  "0 < b \<Longrightarrow> i < length data \<Longrightarrow>
   chunks_from data b i = slice data i (i + b) # chunks_from data b (i + b)"
  using chunks_from.simps [of data b i] by simp

lemma chunks_from_stop:
  "\<not> i < length data \<Longrightarrow> chunks_from data b i = []"
  using chunks_from.simps [of data b i] by simp

lemma chunks_from_concat:
  "0 < b \<Longrightarrow> concat (chunks_from data b i) = drop i data"
proof (induction data b i rule: chunks_from.induct)
  case (1 data b i)
  show ?case
  proof (cases "i < length data")
    case True
    have "concat (chunks_from data b i) = take b (drop i data) @ drop (i + b) data"
      using True "1.prems" "1.IH" by (simp add: chunks_from_step slice_def)
    also have "drop (i + b) data = drop b (drop i data)"
      by (simp add: add.commute)
    also have "take b (drop i data) @ drop b (drop i data) = drop i data"
      by (rule append_take_drop_id)
    finally show ?thesis .
  next
    case False
    then show ?thesis by (simp add: chunks_from_stop)
  qed
qed

lemma chunks_from_lengths:
  "0 < b \<Longrightarrow> c \<in> set (chunks_from data b i) \<Longrightarrow> 0 < length c \<and> length c \<le> b"
proof (induction data b i rule: chunks_from.induct)
  case (1 data b i)
  show ?case
  proof (cases "i < length data")
    case True
    then have "c = slice data i (i + b) \<or> c \<in> set (chunks_from data b (i + b))"
      using "1.prems" by (simp add: chunks_from_step)
    then show ?thesis
    proof
      assume "c = slice data i (i + b)"
      then show ?thesis using True "1.prems"(1) by (simp add: slice_def)
    next
      assume "c \<in> set (chunks_from data b (i + b))"
      then show ?thesis using "1.IH" True "1.prems"(1) by simp
    qed
  next
    case False
    then show ?thesis using "1.prems" by (simp add: chunks_from_stop)
  qed
qed

lemma chunks_from_butlast:
  "0 < b \<Longrightarrow> c \<in> set (butlast (chunks_from data b i)) \<Longrightarrow> length c = b"
proof (induction data b i rule: chunks_from.induct)
  case (1 data b i)
  show ?case
  proof (cases "i < length data")
    case True
    note lt = True
    have step: "chunks_from data b i = slice data i (i + b) # chunks_from data b (i + b)"
      using "1.prems"(1) lt by (rule chunks_from_step)
    show ?thesis
    proof (cases "i + b < length data")
      case True
      then have ne: "chunks_from data b (i + b) \<noteq> []"
        using "1.prems"(1) by (simp add: chunks_from_step)
      have "c = slice data i (i + b) \<or> c \<in> set (butlast (chunks_from data b (i + b)))"
        using "1.prems"(2) ne step by simp
      then show ?thesis
      proof
        assume "c = slice data i (i + b)"
        then show ?thesis using True by (simp add: slice_def)
      next
        assume "c \<in> set (butlast (chunks_from data b (i + b)))"
        then show ?thesis using "1.IH" lt "1.prems"(1) by simp
      qed
    next
      case False
      then have "chunks_from data b (i + b) = []"
        by (simp add: chunks_from_stop)
      then show ?thesis using "1.prems"(2) step by simp
    qed
  next
    case False
    then show ?thesis using "1.prems" by (simp add: chunks_from_stop)
  qed
qed

text \<open>
  C9. For every finite sequence and every positive chunk size, \<open>paginate\<close> returns (it
  raises nothing) chunks whose concatenation in order is the original sequence; every
  chunk but the last has exactly the given size, and the last one is non-empty and at
  most that long.
\<close>

theorem paginate_chunks:
  assumes "0 < batch_size"
  shows "\<exists>cs. paginate data batch_size = Inr cs
           \<and> concat cs = data
           \<and> (\<forall>c \<in> set (butlast cs). int (length c) = batch_size)
           \<and> (\<forall>c \<in> set cs. 0 < length c \<and> int (length c) \<le> batch_size)"
proof -
  let ?b = "nat batch_size"
  let ?cs = "chunks_from data ?b 0"
  have pos: "0 < ?b" using assms by simp
  have p: "paginate data batch_size = Inr ?cs"
    using assms by (simp add: paginate_def)
  have c: "concat ?cs = data"
    using chunks_from_concat [OF pos, of data 0] by simp
  have b: "\<forall>c \<in> set (butlast ?cs). int (length c) = batch_size"
    using chunks_from_butlast [OF pos] assms by fastforce
  have l: "\<forall>c \<in> set ?cs. 0 < length c \<and> int (length c) \<le> batch_size"
    using chunks_from_lengths [OF pos] assms by fastforce
  from p c b l show ?thesis by blast
qed

theorem paginate_chunks_witness:
  "(0::int) < 2 \<and> paginate [1, 2, 3, 4, 5 :: nat] 2 = Inr [[1, 2], [3, 4], [5]]"
proof -
  have h: "(0::int) < 2" by simp
  obtain cs where cs: "paginate [1, 2, 3, 4, 5 :: nat] 2 = Inr cs"
    using paginate_chunks [OF h, of "[1, 2, 3, 4, 5 :: nat]"] by blast
  have "paginate [1, 2, 3, 4, 5 :: nat] 2 = Inr [[1, 2], [3, 4], [5]]"
    by code_simp
  then show ?thesis using h cs by simp
qed

section \<open>Properties of the Fetcher\<close>

lemma small_cases:
  "d < 10 \<Longrightarrow> d = 0 \<or> d = 1 \<or> d = 2 \<or> d = 3 \<or> d = 4 \<or> d = 5 \<or> d = 6 \<or> d = 7 \<or> d = 8
     \<or> d = (9::nat)"
  by arith

lemma digit_char_value: "d < 10 \<Longrightarrow> (of_char (digit_char d) :: nat) = 48 + d"
  using small_cases [of d] by (auto simp: digit_char_def)

lemma digit_char_in: "d < 10 \<Longrightarrow> digit_char d \<in> set ''0123456789''"
  using small_cases [of d] by (auto simp: digit_char_def)

lemma digit_char_zero: "d < 10 \<Longrightarrow> digit_char d = CHR ''0'' \<longleftrightarrow> d = 0"
  using small_cases [of d] by (auto simp: digit_char_def)

lemma digits_small: "n < 10 \<Longrightarrow> digits n = [digit_char n]"
  using digits.simps [of n] by simp

lemma digits_large: "\<not> n < 10 \<Longrightarrow> digits n = digits (n div 10) @ [digit_char (n mod 10)]"
  using digits.simps [of n] by simp

lemma digits_nonempty: "digits n \<noteq> []"
  using digits.simps [of n] by (cases "n < 10") simp_all

lemma digits_set: "set (digits n) \<subseteq> set ''0123456789''"
proof (induction n rule: digits.induct)
  case (1 n)
  show ?case
  proof (cases "n < 10")
    case True
    then show ?thesis using digit_char_in [of n] by (simp add: digits_small)
  next
    case False
    have "n mod 10 < 10" by simp
    then have "digit_char (n mod 10) \<in> set ''0123456789''" by (rule digit_char_in)
    then show ?thesis using "1.IH" False by (simp add: digits_large)
  qed
qed

lemma digits_value: "foldl (\<lambda>a c. 10 * a + (of_char c - 48)) (0::nat) (digits n) = n"
proof (induction n rule: digits.induct)
  case (1 n)
  show ?case
  proof (cases "n < 10")
    case True
    then show ?thesis by (simp add: digits_small digit_char_value)
  next
    case False
    have "(of_char (digit_char (n mod 10)) :: nat) = 48 + n mod 10"
      by (rule digit_char_value) simp
    then show ?thesis using "1.IH" False by (simp add: digits_large)
  qed
qed

lemma digits_hd: "hd (digits n) = CHR ''0'' \<Longrightarrow> n = 0"
proof (induction n rule: digits.induct)
  case (1 n)
  show ?case
  proof (cases "n < 10")
    case True
    then show ?thesis using "1.prems" by (simp add: digits_small digit_char_zero)
  next
    case False
    then have "hd (digits n) = hd (digits (n div 10))"
      by (simp add: digits_large digits_nonempty)
    then have "n div 10 = 0" using "1.IH" False "1.prems" by simp
    then show ?thesis using False by simp
  qed
qed

lemma digits_three:
  assumes "100 \<le> n" and "n \<le> 999"
  shows "digits n = [''0123456789'' ! (n div 100), ''0123456789'' ! (n div 10 mod 10),
                     ''0123456789'' ! (n mod 10)]"
proof -
  have a: "\<not> n < 10" using assms by simp
  have b: "\<not> n div 10 < 10" using assms by simp
  have c: "n div 10 div 10 < 10" using assms by simp
  have d: "n div 10 div 10 = n div 100" by (simp add: div_mult2_eq)
  show ?thesis
    using digits_large [OF a] digits_large [OF b] digits_small [OF c] d
    by (simp add: digit_char_def)
qed

text \<open>
  C5. When the archive answers with a status other than 200, the script ends with a
  \<open>RuntimeError\<close> whose message is \<open>HTTP\<close>, a blank, the status code in decimal, a colon,
  a blank and the first 200 characters of the body. The status code is there as its
  decimal digits: a minus sign for a negative status, then a non-empty run of digit
  characters without a leading zero whose base-10 value is the absolute value of the
  status; for a three-digit status these are the digits of its hundreds, tens and units.
  The excerpt is a prefix of the body of at most 200 characters. Exactly one request has
  been sent (no retry) and no file has been written.
\<close>

theorem fetcher_non_200:
  assumes "http fetch_request = Inr resp" and "status_code resp \<noteq> 200"
  shows "\<exists>sign ds w'.
           fetcher_main http w
             = (Some (RuntimeError (''HTTP '' @ sign @ ds @ '': '' @ take 200 (body_text resp))), w')
           \<and> sign = (if status_code resp < 0 then ''-'' else [])
           \<and> ds \<noteq> [] \<and> set ds \<subseteq> set ''0123456789''
           \<and> (hd ds = CHR ''0'' \<longrightarrow> ds = ''0'')
           \<and> int (foldl (\<lambda>a c. 10 * a + (of_char c - 48)) 0 ds) = \<bar>status_code resp\<bar>
           \<and> (100 \<le> status_code resp \<and> status_code resp \<le> 999 \<longrightarrow>
                ds = [''0123456789'' ! nat (status_code resp div 100),
                      ''0123456789'' ! nat (status_code resp div 10 mod 10),
                      ''0123456789'' ! nat (status_code resp mod 10)])
           \<and> prefix (take 200 (body_text resp)) (body_text resp)
           \<and> length (take 200 (body_text resp)) \<le> 200
           \<and> sent w' = sent w @ [fetch_request]
           \<and> files w' = files w"
proof -
  let ?c = "status_code resp"
  let ?sign = "if ?c < 0 then ''-'' else []"
  let ?ds = "digits (nat \<bar>?c\<bar>)"
  let ?w = "w\<lparr>console := console w @ [Requesting], sent := sent w @ [fetch_request]\<rparr>"
  have str: "str_int ?c = ?sign @ ?ds"
    by (simp add: str_int_def abs_if)
  have run: "fetcher_main http w
      = (Some (RuntimeError (''HTTP '' @ ?sign @ ?ds @ '': '' @ take 200 (body_text resp))), ?w)"
    using assms str by (simp add: fetcher_main_def fetch_all_exoplanets_def Let_def)
  have v: "int (foldl (\<lambda>a c. 10 * a + (of_char c - 48)) 0 ?ds) = \<bar>?c\<bar>"
    by (simp add: digits_value)
  have z: "hd ?ds = CHR ''0'' \<longrightarrow> ?ds = ''0''"
  proof
    assume "hd ?ds = CHR ''0''"
    then have "nat \<bar>?c\<bar> = 0" by (rule digits_hd)
    then show "?ds = ''0''" by (simp add: digits_small digit_char_def)
  qed
  have t: "100 \<le> ?c \<and> ?c \<le> 999 \<longrightarrow>
             ?ds = [''0123456789'' ! nat (?c div 100), ''0123456789'' ! nat (?c div 10 mod 10),
                    ''0123456789'' ! nat (?c mod 10)]"
  proof
    assume r: "100 \<le> ?c \<and> ?c \<le> 999"
    then have n: "100 \<le> nat \<bar>?c\<bar>" "nat \<bar>?c\<bar> \<le> 999" by linarith+
    have e: "nat \<bar>?c\<bar> = nat ?c" using r by simp
    have d1: "nat ?c div 100 = nat (?c div 100)" using r by (simp add: nat_div_distrib)
    have p0: "0 \<le> ?c" "0 \<le> ?c div 10"
      using r by (simp_all add: pos_imp_zdiv_nonneg_iff)
    have "nat (?c div 10 mod 10) = nat (?c div 10) mod 10"
      using p0(2) by (simp add: nat_mod_distrib)
    also have "nat (?c div 10) = nat ?c div 10"
      using p0(1) by (simp add: nat_div_distrib)
    finally have d2: "nat ?c div 10 mod 10 = nat (?c div 10 mod 10)" by simp
    have d3: "nat ?c mod 10 = nat (?c mod 10)" using r by (simp add: nat_mod_distrib)
    show "?ds = [''0123456789'' ! nat (?c div 100), ''0123456789'' ! nat (?c div 10 mod 10),
                 ''0123456789'' ! nat (?c mod 10)]"
      using digits_three [OF n] unfolding e d1 d2 d3 .
  qed
  have p: "prefix (take 200 (body_text resp)) (body_text resp)"
    by (rule take_is_prefix)
  show ?thesis
    apply (rule exI [of _ ?sign], rule exI [of _ ?ds], rule exI [of _ ?w])
    using run v z t p digits_nonempty [of "nat \<bar>?c\<bar>"] digits_set [of "nat \<bar>?c\<bar>"]
    by simp
qed

text \<open>A 404 answer: the message reads \<open>HTTP 404: \<close> and the excerpt, and no file exists.\<close>

theorem fetcher_non_200_witness:
  "fst (fetcher_main (\<lambda>r. Inr not_found) fresh_world)
     = Some (RuntimeError ''HTTP 404: no such table'')
   \<and> files (snd (fetcher_main (\<lambda>r. Inr not_found) fresh_world)) ''Exoplanate.json'' = None
   \<and> length (sent (snd (fetcher_main (\<lambda>r. Inr not_found) fresh_world))) = 1"
proof -
  have h1: "(\<lambda>r. Inr not_found) fetch_request = Inr not_found" by simp
  have h2: "status_code not_found \<noteq> 200" by (simp add: not_found_def)
  obtain sign ds w' where
    r: "fetcher_main (\<lambda>r. Inr not_found) fresh_world
          = (Some (RuntimeError (''HTTP '' @ sign @ ds @ '': ''
                                 @ take 200 (body_text not_found))), w')"
    and sg: "sign = (if status_code not_found < 0 then ''-'' else [])"
    and d: "100 \<le> status_code not_found \<and> status_code not_found \<le> 999 \<longrightarrow>
              ds = [''0123456789'' ! nat (status_code not_found div 100),
                    ''0123456789'' ! nat (status_code not_found div 10 mod 10),
                    ''0123456789'' ! nat (status_code not_found mod 10)]"
    and s: "sent w' = sent fresh_world @ [fetch_request]"
    and f: "files w' = files fresh_world"
    using fetcher_non_200 [OF h1 h2, of fresh_world] by blast
  have "ds = ''404''" using d by (simp add: not_found_def)
  moreover have "sign = []" using sg by (simp add: not_found_def)
  ultimately show ?thesis using r s f by (simp add: fresh_world_def not_found_def)
qed

lemma fetcher_503:
  "fst (fetcher_main (\<lambda>r. Inr server_error) fresh_world) = Some (RuntimeError ''HTTP 503: busy'')"
  by (simp add: fetcher_main_def fetch_all_exoplanets_def Let_def server_error_def
      fresh_world_def str_int_def digits_three)

section \<open>The statements on the \<open>planets\<close> table\<close>

lemma create_database_result:
  "create_database db_file = Inr \<lparr>on_disk = Some planets_table0, in_txn = Some planets_table0\<rparr>"
  by (simp add: create_database_def connect_def commit_def drop_table_if_exists_def
      create_table_def create_index_def planets_columns_def planets_table0_def)

lemma new_row_name:
  "cell (new_row eng k sq (v # vs)) ''pl_name'' = apply_affinity eng AffText v"
  by (simp add: new_row_def cell_def planets_columns_def insert_columns_def column_value_def)

lemma insert_columns_ok:
  "list_all (\<lambda>c. c \<in> set (map col_name planets_columns)) insert_columns"
  by (simp add: insert_columns_def planets_columns_def)

lemma insert_into_planets:
  assumes "tbl_columns t = planets_columns"
  shows "insert_into eng k insert_columns (v # vs) (Some t) =
     (if apply_affinity eng AffText v = SNull
      then Inl (IntegrityError ''NOT NULL constraint failed: planets.pl_name'')
      else if list_ex (\<lambda>r'. cell r' ''pl_name'' = apply_affinity eng AffText v) (tbl_rows t)
      then Inl (IntegrityError ''UNIQUE constraint failed: planets.pl_name'')
      else Inr (Some (t\<lparr>tbl_rows := tbl_rows t @ [new_row eng k (tbl_seq t) (v # vs)],
                        tbl_seq := tbl_seq t + 1\<rparr>)))"
proof -
  let ?r = "new_row eng k (tbl_seq t) (v # vs)"
  have nn: "find (\<lambda>c. NotNull \<in> set (col_constraints c) \<and> cell ?r (col_name c) = SNull)
              planets_columns
            = (if cell ?r ''pl_name'' = SNull then Some (planets_columns ! 1) else None)"
    by (simp add: planets_columns_def)
  have uq: "find (\<lambda>c. Unique \<in> set (col_constraints c) \<and> cell ?r (col_name c) \<noteq> SNull
                       \<and> list_ex (\<lambda>r'. cell r' (col_name c) = cell ?r (col_name c)) (tbl_rows t))
              planets_columns
            = (if cell ?r ''pl_name'' \<noteq> SNull
                  \<and> list_ex (\<lambda>r'. cell r' ''pl_name'' = cell ?r ''pl_name'') (tbl_rows t)
               then Some (planets_columns ! 1) else None)"
    by (simp add: planets_columns_def)
  have nm: "col_name (planets_columns ! Suc 0) = ''pl_name''"
    by (simp add: planets_columns_def)
  show ?thesis
    using insert_columns_ok
    by (simp add: insert_into_def Let_def assms new_row_def [symmetric] nn uq nm new_row_name)
qed

section \<open>One record, one batch, all batches\<close>

lemma bind_params_length: "bind_params ps = Inr vs \<Longrightarrow> length vs = length ps"
  by (induction ps arbitrary: vs) (auto split: sum.splits)

lemma insert_parameters_length: "insert_parameters p = Inr ps \<Longrightarrow> length ps = 18"
  by (cases p) auto

lemma bound_values_length: "bound_values p = Inr vs \<Longrightarrow> length vs = 18"
proof -
  assume a: "bound_values p = Inr vs"
  then obtain ps where ps: "insert_parameters p = Inr ps" and b: "bind_params ps = Inr vs"
    by (auto simp: bound_values_def split: sum.splits)
  show ?thesis
    using insert_parameters_length [OF ps] bind_params_length [OF b] by simp
qed

lemma bound_values_cons: "bound_values p = Inr vs \<Longrightarrow> \<exists>v vs'. vs = v # vs'"
  using bound_values_length [of p vs] by (cases vs) auto

lemma list_ex_names:
  "list_ex (\<lambda>r'. cell r' ''pl_name'' = n) (tbl_rows t) \<longleftrightarrow> n \<in> set (table_names t)"
  by (auto simp: table_names_def list_ex_iff)

lemma try_insert_planets:
  assumes "in_txn (conn s) = Some t" and "tbl_columns t = planets_columns"
  shows "try_insert eng p s =
     (if record_name eng p \<noteq> SNull \<and> record_name eng p \<notin> set (table_names t)
      then Inr (insert_row eng p s t)
      else Inl (insert_error eng p))"
proof (cases "bound_values p")
  case (Inl e)
  then show ?thesis
    by (auto simp: try_insert_def bound_values_def record_name_def insert_error_def
        split: sum.splits)
next
  case (Inr vs)
  then obtain v vs' where vs: "vs = v # vs'" using bound_values_cons by blast
  have t: "try_insert eng p s =
      (case insert_into eng (inserted s + skipped s) insert_columns (v # vs') (Some t) of
         Inl e \<Rightarrow> Inl e
       | Inr db \<Rightarrow> Inr (s\<lparr>conn := (conn s)\<lparr>in_txn := db\<rparr>, inserted := inserted s + 1\<rparr>))"
    using Inr vs assms(1) by (auto simp: try_insert_def bound_values_def split: sum.splits)
  show ?thesis
    unfolding t insert_into_planets [OF assms(2)]
    using Inr vs
    by (simp add: record_name_def insert_error_def insert_row_def record_values_def
        list_ex_names)
qed

lemma process_planet_planets:
  assumes "in_txn (conn s) = Some t" and "tbl_columns t = planets_columns"
  shows "process_planet eng p s =
     (if record_name eng p \<noteq> SNull \<and> record_name eng p \<notin> set (table_names t)
      then (None, insert_row eng p s t)
      else if skipped s + 1 \<le> 5
      then (case py_get p ''pl_name'' of
              Inl e' \<Rightarrow> (Some e', s\<lparr>skipped := skipped s + 1\<rparr>)
            | Inr name \<Rightarrow>
                (None, s\<lparr>skipped := skipped s + 1,
                         printed := printed s @ [skip_line name (insert_error eng p)]\<rparr>))
      else (None, s\<lparr>skipped := skipped s + 1\<rparr>))"
  unfolding process_planet_def try_insert_planets [OF assms]
  by (simp add: Let_def skip_line_def split: sum.splits exn.splits)

lemma insert_batch_rule:
  assumes step: "\<And>pre p s st s'. I pre s \<Longrightarrow> process_planet eng p s = (st, s') \<Longrightarrow> I (pre @ [p]) s'"
    and "I pre s" and "insert_batch eng ps s = (st, s')"
  shows "\<exists>m \<le> length ps. I (pre @ take m ps) s' \<and> (st = None \<longrightarrow> m = length ps)"
  using assms(2,3)
proof (induction ps arbitrary: pre s)
  case Nil
  then show ?case by simp
next
  case (Cons p ps)
  obtain st1 s1 where pp: "process_planet eng p s = (st1, s1)" by (cases "process_planet eng p s")
  have I1: "I (pre @ [p]) s1" using step [OF Cons.prems(1) pp] .
  show ?case
  proof (cases st1)
    case None
    then have "insert_batch eng ps s1 = (st, s')" using Cons.prems(2) pp by simp
    from Cons.IH [OF I1 this] obtain m where
      m: "m \<le> length ps" "I ((pre @ [p]) @ take m ps) s'" "st = None \<longrightarrow> m = length ps"
      by blast
    show ?thesis
      by (rule exI [of _ "Suc m"]) (use m in simp)
  next
    case (Some e)
    then have "st = Some e" "s' = s1" using Cons.prems(2) pp by simp_all
    then show ?thesis
      by (intro exI [of _ "Suc 0"]) (use I1 in simp)
  qed
qed

lemma take_slice:
  assumes "m \<le> length (slice xs i (i + b))"
  shows "take i xs @ take m (slice xs i (i + b)) = take (i + m) xs"
proof -
  have "m \<le> b" using assms by (simp add: slice_def)
  then have "take m (slice xs i (i + b)) = take m (drop i xs)"
    by (simp add: slice_def min_absorb1)
  then show ?thesis by (simp add: take_add)
qed

lemma take_whole_slice:
  "take i xs @ slice xs i (i + b) = take (i + b) xs"
  by (simp add: slice_def take_add)

lemma insert_batches_rule:
  assumes step: "\<And>pre p s st s'. I pre s \<Longrightarrow> process_planet eng p s = (st, s') \<Longrightarrow> I (pre @ [p]) s'"
    and commit_step: "\<And>pre s. I pre s \<Longrightarrow>
           I pre (s\<lparr>conn := commit (conn s),
                     printed := printed s @ [Progress (inserted s) (length planets) (skipped s)]\<rparr>)"
    and "I (take i planets) s" and "insert_batches eng planets i s = (st, s')"
  shows "\<exists>m \<le> length planets. I (take m planets) s' \<and> (st = None \<longrightarrow> m = length planets)"
  using assms(3,4)
proof (induction "length planets - i" arbitrary: i s rule: less_induct)
  case less
  show ?case
  proof (cases "i < length planets")
    case False
    then have "st = None" "s' = s"
      using less.prems(2) insert_batches.simps [of eng planets i s] by simp_all
    moreover have "take i planets = take (length planets) planets" using False by simp
    ultimately show ?thesis using less.prems(1) by auto
  next
    case True
    let ?batch = "slice planets i (i + migrate_batch_size)"
    obtain st1 s1 where ib: "insert_batch eng ?batch s = (st1, s1)"
      by (cases "insert_batch eng ?batch s")
    have "\<exists>m \<le> length ?batch. I (take i planets @ take m ?batch) s1
            \<and> (st1 = None \<longrightarrow> m = length ?batch)"
      using step less.prems(1) ib by (rule insert_batch_rule)
    then obtain m where
      m: "m \<le> length ?batch" "I (take i planets @ take m ?batch) s1"
         "st1 = None \<longrightarrow> m = length ?batch"
      by blast
    have I1: "I (take (i + m) planets) s1" using m(1,2) take_slice by metis
    have le: "i + m \<le> length planets" using m(1) True by (auto simp: slice_def)
    show ?thesis
    proof (cases st1)
      case (Some e)
      then have "st = Some e" "s' = s1"
        using less.prems(2) True ib insert_batches.simps [of eng planets i s] by simp_all
      then show ?thesis using I1 le by auto
    next
      case None
      let ?s2 = "s1\<lparr>conn := commit (conn s1),
                    printed := printed s1 @ [Progress (inserted s1) (length planets) (skipped s1)]\<rparr>"
      have "take i planets @ take m ?batch = take (i + migrate_batch_size) planets"
        using m(3) None take_whole_slice by simp
      then have "I (take (i + migrate_batch_size) planets) s1" using m(2) by simp
      then have I2: "I (take (i + migrate_batch_size) planets) ?s2" by (rule commit_step)
      have rec: "insert_batches eng planets (i + migrate_batch_size) ?s2 = (st, s')"
        using less.prems(2) True ib None insert_batches.simps [of eng planets i s]
        by (simp add: Let_def)
      have dec: "length planets - (i + migrate_batch_size) < length planets - i"
        using True by (simp add: migrate_batch_size_def)
      show ?thesis
        using less.hyps [OF dec I2 rec] .
    qed
  qed
qed

lemma loaded_rows_Nil [simp]: "loaded_rows eng [] = []"
  by (simp add: loaded_rows_def)

lemma loaded_rows_snoc:
  "loaded_rows eng (pre @ [p]) = load_step eng (loaded_rows eng pre) (length pre, p)"
  by (simp add: loaded_rows_def)

lemma all_skip_lines_Nil [simp]: "all_skip_lines eng [] = []"
  by (simp add: all_skip_lines_def)

lemma skip_lines_at_append:
  "k < length pre \<Longrightarrow> skip_lines_at eng (pre @ q) k = skip_lines_at eng pre k"
  by (simp add: skip_lines_at_def nth_append)

lemma skip_lines_at_last:
  "skip_lines_at eng (pre @ [p]) (length pre) = skip_lines_of eng (loaded_rows eng pre) p"
  by (simp add: skip_lines_at_def)

lemma all_skip_lines_snoc:
  "all_skip_lines eng (pre @ [p])
     = all_skip_lines eng pre @ skip_lines_of eng (loaded_rows eng pre) p"
proof -
  have m: "map (skip_lines_at eng (pre @ [p])) [0..<length pre]
        = map (skip_lines_at eng pre) [0..<length pre]"
    by (rule map_cong [OF refl]) (simp add: skip_lines_at_append)
  show ?thesis by (simp add: all_skip_lines_def skip_lines_at_last m)
qed

lemma py_get_object: "is_object p \<Longrightarrow> \<exists>name. py_get p k = Inr name"
  by (cases p) simp_all

lemma py_get_not_object: "py_get p k = Inl e \<Longrightarrow> \<not> is_object p"
  by (cases p) simp_all

lemma skip_line_is_skip [simp]: "is_skip_line (skip_line name e)"
  by (cases e) (simp_all add: skip_line_def)

lemma loader_invI:
  assumes "in_txn (conn s) = Some t" and "on_disk (conn s) = Some td"
    and "tbl_columns t = planets_columns"
    and "tbl_rows t = loaded_rows eng pre"
    and "prefix (tbl_rows td) (tbl_rows t)"
    and "tbl_seq t = length (tbl_rows t)"
    and "inserted s = length (tbl_rows t)"
    and "inserted s + skipped s = length pre"
    and "length (filter is_skip_line (printed s)) \<le> 5"
    and "length (filter is_skip_line (printed s)) \<le> skipped s"
    and "list_all is_object pre \<Longrightarrow>
           filter is_skip_line (printed s) = take 5 (all_skip_lines eng pre)
           \<and> skipped s = length (all_skip_lines eng pre)"
  shows "loader_inv eng pre s"
  unfolding loader_inv_def using assms by blast

lemma loader_inv_step:
  assumes I: "loader_inv eng pre s" and pp: "process_planet eng p s = (st, s')"
  shows "loader_inv eng (pre @ [p]) s'"
proof -
  from I obtain t td where
    t: "in_txn (conn s) = Some t" and td: "on_disk (conn s) = Some td"
    and cols: "tbl_columns t = planets_columns"
    and rows: "tbl_rows t = loaded_rows eng pre"
    and pre: "prefix (tbl_rows td) (tbl_rows t)"
    and sq: "tbl_seq t = length (tbl_rows t)"
    and ins: "inserted s = length (tbl_rows t)"
    and tot: "inserted s + skipped s = length pre"
    and cap: "length (filter is_skip_line (printed s)) \<le> 5"
             "length (filter is_skip_line (printed s)) \<le> skipped s"
    and obj: "list_all is_object pre \<longrightarrow>
                filter is_skip_line (printed s) = take 5 (all_skip_lines eng pre)
                \<and> skipped s = length (all_skip_lines eng pre)"
    unfolding loader_inv_def by blast
  have acc: "accepts eng (loaded_rows eng pre) p
               \<longleftrightarrow> record_name eng p \<noteq> SNull \<and> record_name eng p \<notin> set (table_names t)"
    by (simp add: accepts_def table_names_def rows)
  note nf = process_planet_planets [OF t cols, of eng p]
  show ?thesis
  proof (cases "accepts eng (loaded_rows eng pre) p")
    case True
    then have s': "s' = insert_row eng p s t" using pp nf acc by simp
    have lr: "loaded_rows eng (pre @ [p])
                = loaded_rows eng pre @ [new_row eng (length pre) (length (loaded_rows eng pre))
                                                 (record_values p)]"
      using True by (simp add: loaded_rows_snoc load_step_def)
    have sl: "all_skip_lines eng (pre @ [p]) = all_skip_lines eng pre"
      using True by (simp add: all_skip_lines_snoc skip_lines_of_def)
    show ?thesis
      unfolding s'
      by (rule loader_invI [where td = td and t = "t\<lparr>tbl_rows := tbl_rows t
               @ [new_row eng (inserted s + skipped s) (tbl_seq t) (record_values p)],
               tbl_seq := tbl_seq t + 1\<rparr>"])
         (use td cols rows pre sq ins tot cap obj lr sl in \<open>auto simp: insert_row_def prefix_def\<close>)
  next
    case False
    have lr: "loaded_rows eng (pre @ [p]) = loaded_rows eng pre"
      using False by (simp add: loaded_rows_snoc load_step_def)
    have nacc: "\<not> (record_name eng p \<noteq> SNull \<and> record_name eng p \<notin> set (table_names t))"
      using False acc by blast
    have nf2: "process_planet eng p s =
        (if skipped s + 1 \<le> 5
         then (case py_get p ''pl_name'' of
                 Inl e' \<Rightarrow> (Some e', s\<lparr>skipped := skipped s + 1\<rparr>)
               | Inr name \<Rightarrow>
                   (None, s\<lparr>skipped := skipped s + 1,
                            printed := printed s @ [skip_line name (insert_error eng p)]\<rparr>))
         else (None, s\<lparr>skipped := skipped s + 1\<rparr>))"
      unfolding nf using nacc by (rule if_not_P)
    show ?thesis
    proof (cases "skipped s + 1 \<le> 5")
      case small: True
      show ?thesis
      proof (cases "py_get p ''pl_name''")
        case (Inl e)
        then have s': "s' = s\<lparr>skipped := skipped s + 1\<rparr>"
          using pp nf2 small by simp
        have no: "\<not> is_object p" using Inl by (rule py_get_not_object)
        show ?thesis
          unfolding s'
          by (rule loader_invI [where td = td and t = t])
             (use no t td cols rows pre sq ins tot cap lr in auto)
      next
        case (Inr name)
        then have s': "s' = s\<lparr>skipped := skipped s + 1,
                               printed := printed s @ [skip_line name (insert_error eng p)]\<rparr>"
          using pp nf2 small by simp
        have sl: "all_skip_lines eng (pre @ [p])
                    = all_skip_lines eng pre @ [skip_line name (insert_error eng p)]"
          using False Inr by (simp add: all_skip_lines_snoc skip_lines_of_def)
        show ?thesis
          unfolding s'
          by (rule loader_invI [where td = td and t = t])
             (use t td cols rows pre sq ins tot cap obj lr sl small in auto)
      qed
    next
      case big: False
      then have s': "s' = s\<lparr>skipped := skipped s + 1\<rparr>"
        using pp nf2 by simp
      have sl: "is_object p \<Longrightarrow> \<exists>l. all_skip_lines eng (pre @ [p]) = all_skip_lines eng pre @ [l]"
        using False py_get_object [of p "''pl_name''"]
        by (auto simp: all_skip_lines_snoc skip_lines_of_def)
      show ?thesis
        unfolding s'
        by (rule loader_invI [where td = td and t = t])
           (use t td cols rows pre sq ins tot cap obj lr sl big in auto)
    qed
  qed
qed

lemma insert_batch_abort:
  assumes step: "\<And>pre p s st s'. I pre s \<Longrightarrow> process_planet eng p s = (st, s') \<Longrightarrow> I (pre @ [p]) s'"
    and "I pre s" and "insert_batch eng ps s = (Some e, s')"
  shows "\<exists>m < length ps. \<exists>s0. I (pre @ take m ps) s0
            \<and> process_planet eng (ps ! m) s0 = (Some e, s')"
  using assms(2,3)
proof (induction ps arbitrary: pre s)
  case Nil
  then show ?case by simp
next
  case (Cons p ps)
  obtain st1 s1 where pp: "process_planet eng p s = (st1, s1)" by (cases "process_planet eng p s")
  have I1: "I (pre @ [p]) s1" using step [OF Cons.prems(1) pp] .
  show ?case
  proof (cases st1)
    case None
    then have "insert_batch eng ps s1 = (Some e, s')" using Cons.prems(2) pp by simp
    from Cons.IH [OF I1 this] obtain m s0 where
      m: "m < length ps" "I ((pre @ [p]) @ take m ps) s0"
         "process_planet eng (ps ! m) s0 = (Some e, s')"
      by blast
    show ?thesis
      by (rule exI [of _ "Suc m"]) (use m in auto)
  next
    case (Some e1)
    then have "e1 = e" "s' = s1" using Cons.prems(2) pp by simp_all
    then show ?thesis
      using Cons.prems(1) pp Some by (intro exI [of _ 0]) auto
  qed
qed

lemma insert_batches_abort:
  assumes step: "\<And>pre p s st s'. I pre s \<Longrightarrow> process_planet eng p s = (st, s') \<Longrightarrow> I (pre @ [p]) s'"
    and commit_step: "\<And>pre s. I pre s \<Longrightarrow>
           I pre (s\<lparr>conn := commit (conn s),
                     printed := printed s @ [Progress (inserted s) (length planets) (skipped s)]\<rparr>)"
    and "I (take i planets) s" and "insert_batches eng planets i s = (Some e, s')"
  shows "\<exists>m < length planets. \<exists>s0. I (take m planets) s0
            \<and> process_planet eng (planets ! m) s0 = (Some e, s')"
  using assms(3,4)
proof (induction "length planets - i" arbitrary: i s rule: less_induct)
  case less
  show ?case
  proof (cases "i < length planets")
    case False
    then show ?thesis
      using less.prems(2) insert_batches.simps [of eng planets i s] by simp
  next
    case True
    let ?batch = "slice planets i (i + migrate_batch_size)"
    obtain st1 s1 where ib: "insert_batch eng ?batch s = (st1, s1)"
      by (cases "insert_batch eng ?batch s")
    show ?thesis
    proof (cases st1)
      case (Some e1)
      then have eq: "e1 = e" "s' = s1"
        using less.prems(2) True ib insert_batches.simps [of eng planets i s] by simp_all
      have ib': "insert_batch eng ?batch s = (Some e, s')" using ib Some eq by simp
      have "\<exists>m < length ?batch. \<exists>s0. I (take i planets @ take m ?batch) s0
              \<and> process_planet eng (?batch ! m) s0 = (Some e, s')"
        using step less.prems(1) ib' by (rule insert_batch_abort)
      then obtain m s0 where
        m: "m < length ?batch" "I (take i planets @ take m ?batch) s0"
           "process_planet eng (?batch ! m) s0 = (Some e, s')"
        by blast
      have I0: "I (take (i + m) planets) s0"
        using m(1,2) take_slice [of m planets i migrate_batch_size] by simp
      have lt: "i + m < length planets" using m(1) True by (auto simp: slice_def)
      have nth: "?batch ! m = planets ! (i + m)"
        using m(1) lt by (simp add: slice_def)
      show ?thesis using I0 lt m(3) nth by auto
    next
      case None
      have "\<exists>m \<le> length ?batch. I (take i planets @ take m ?batch) s1
              \<and> (st1 = None \<longrightarrow> m = length ?batch)"
        using step less.prems(1) ib by (rule insert_batch_rule)
      then have "I (take i planets @ ?batch) s1" using None by auto
      then have "I (take (i + migrate_batch_size) planets) s1"
        by (simp add: take_whole_slice)
      let ?s2 = "s1\<lparr>conn := commit (conn s1),
                    printed := printed s1 @ [Progress (inserted s1) (length planets) (skipped s1)]\<rparr>"
      have I2: "I (take (i + migrate_batch_size) planets) ?s2"
        using \<open>I (take (i + migrate_batch_size) planets) s1\<close> by (rule commit_step)
      have rec: "insert_batches eng planets (i + migrate_batch_size) ?s2 = (Some e, s')"
        using less.prems(2) True ib None insert_batches.simps [of eng planets i s]
        by (simp add: Let_def)
      have dec: "length planets - (i + migrate_batch_size) < length planets - i"
        using True by (simp add: migrate_batch_size_def)
      show ?thesis
        using less.hyps [OF dec I2 rec] .
    qed
  qed
qed

lemma insert_batches_committed:
  assumes "insert_batches eng planets i s = (None, s')"
    and "on_disk (conn s) = in_txn (conn s)"
  shows "on_disk (conn s') = in_txn (conn s')"
  using assms
proof (induction "length planets - i" arbitrary: i s rule: less_induct)
  case less
  show ?case
  proof (cases "i < length planets")
    case False
    then show ?thesis
      using less.prems insert_batches.simps [of eng planets i s] by simp
  next
    case True
    let ?batch = "slice planets i (i + migrate_batch_size)"
    obtain st1 s1 where ib: "insert_batch eng ?batch s = (st1, s1)"
      by (cases "insert_batch eng ?batch s")
    have st1: "st1 = None"
      using less.prems(1) True ib insert_batches.simps [of eng planets i s]
      by (cases st1) simp_all
    let ?s2 = "s1\<lparr>conn := commit (conn s1),
                  printed := printed s1 @ [Progress (inserted s1) (length planets) (skipped s1)]\<rparr>"
    have rec: "insert_batches eng planets (i + migrate_batch_size) ?s2 = (None, s')"
      using less.prems(1) True ib st1 insert_batches.simps [of eng planets i s]
      by (simp add: Let_def)
    have eq: "on_disk (conn ?s2) = in_txn (conn ?s2)" by (simp add: commit_def)
    have dec: "length planets - (i + migrate_batch_size) < length planets - i"
      using True by (simp add: migrate_batch_size_def)
    show ?thesis using less.hyps [OF dec rec eq] .
  qed
qed

lemma loader_inv_commit:
  assumes "loader_inv eng pre s"
  shows "loader_inv eng pre (s\<lparr>conn := commit (conn s), printed := printed s @ [Progress a b c]\<rparr>)"
proof -
  from assms obtain t td where
    t: "in_txn (conn s) = Some t" and td: "on_disk (conn s) = Some td"
    and cols: "tbl_columns t = planets_columns"
    and rows: "tbl_rows t = loaded_rows eng pre"
    and sq: "tbl_seq t = length (tbl_rows t)"
    and ins: "inserted s = length (tbl_rows t)"
    and tot: "inserted s + skipped s = length pre"
    and cap: "length (filter is_skip_line (printed s)) \<le> 5"
             "length (filter is_skip_line (printed s)) \<le> skipped s"
    and obj: "list_all is_object pre \<longrightarrow>
                filter is_skip_line (printed s) = take 5 (all_skip_lines eng pre)
                \<and> skipped s = length (all_skip_lines eng pre)"
    unfolding loader_inv_def by blast
  show ?thesis
    by (rule loader_invI [where t = t and td = t])
       (use t cols rows sq ins tot cap obj in \<open>auto simp: commit_def\<close>)
qed

lemma loader_inv_start: "loader_inv eng [] (start_state planets)"
  by (rule loader_invI [where t = planets_table0 and td = planets_table0])
     (simp_all add: start_state_def planets_table0_def)

lemma migrate_unfold:
  "migrate_json_to_sqlite eng planets db =
     (case insert_batches eng planets 0 (start_state planets) of
        (Some e, s) \<Rightarrow> (Some e, s)
      | (None, s) \<Rightarrow> report eng s)"
  by (simp add: migrate_json_to_sqlite_def create_database_result start_state_def)

lemma loop_inv:
  assumes "insert_batches eng planets 0 (start_state planets) = (st, s)"
  shows "\<exists>m \<le> length planets. loader_inv eng (take m planets) s
           \<and> (st = None \<longrightarrow> m = length planets)"
proof (rule insert_batches_rule [where I = "loader_inv eng" and i = 0])
  show "loader_inv eng (take 0 planets) (start_state planets)"
    by (simp add: loader_inv_start)
  show "insert_batches eng planets 0 (start_state planets) = (st, s)" by (rule assms)
qed (auto intro: loader_inv_step loader_inv_commit)

lemma loop_abort:
  assumes "insert_batches eng planets 0 (start_state planets) = (Some e, s)"
  shows "\<exists>m < length planets. \<not> is_object (planets ! m)"
proof -
  have "\<exists>m < length planets. \<exists>s0. loader_inv eng (take m planets) s0
          \<and> process_planet eng (planets ! m) s0 = (Some e, s)"
  proof (rule insert_batches_abort [where I = "loader_inv eng" and i = 0])
    show "loader_inv eng (take 0 planets) (start_state planets)"
      by (simp add: loader_inv_start)
    show "insert_batches eng planets 0 (start_state planets) = (Some e, s)" by (rule assms)
  qed (auto intro: loader_inv_step loader_inv_commit)
  then obtain m s0 where m: "m < length planets" "loader_inv eng (take m planets) s0"
    "process_planet eng (planets ! m) s0 = (Some e, s)" by blast
  from m(2) obtain t where t: "in_txn (conn s0) = Some t" "tbl_columns t = planets_columns"
    unfolding loader_inv_def by blast
  have "\<not> is_object (planets ! m)"
  proof
    assume "is_object (planets ! m)"
    then obtain name where "py_get (planets ! m) ''pl_name'' = Inr name"
      using py_get_object by blast
    then show False
      using m(3) process_planet_planets [OF t, of eng "planets ! m"]
      by (auto split: if_splits)
  qed
  then show ?thesis using m(1) by blast
qed

lemma report_result:
  assumes "in_txn (conn s) = Some t" and "on_disk (conn s) = Some t"
  shows "report eng s = (None, s\<lparr>printed := printed s @ report_lines eng s (tbl_rows t)\<rparr>)"
proof -
  have c: "close (conn s) = conn s"
    using assms by (simp add: close_def)
  show ?thesis
    using assms c
    by (simp add: report_def Let_def select_count_def select_min_max_not_null_def
        report_lines_def year_values_def)
qed

lemma migrate_complete:
  assumes "fst (migrate_json_to_sqlite eng planets db) = None"
  shows "\<exists>s t. loader_inv eng planets s \<and> in_txn (conn s) = Some t \<and> on_disk (conn s) = Some t
           \<and> tbl_rows t = loaded_rows eng planets
           \<and> migrate_json_to_sqlite eng planets db
               = (None, s\<lparr>printed := printed s @ report_lines eng s (tbl_rows t)\<rparr>)"
proof -
  obtain st s where loop: "insert_batches eng planets 0 (start_state planets) = (st, s)"
    by (cases "insert_batches eng planets 0 (start_state planets)")
  have st: "st = None"
    using assms loop by (cases st) (simp_all add: migrate_unfold)
  from loop_inv [OF loop] st have inv: "loader_inv eng planets s" by auto
  have eq: "on_disk (conn s) = in_txn (conn s)"
    using loop st by (intro insert_batches_committed [of eng planets 0 "start_state planets" s])
      (simp_all add: start_state_def)
  from inv obtain t where t: "in_txn (conn s) = Some t" "tbl_rows t = loaded_rows eng planets"
    unfolding loader_inv_def by blast
  have d: "on_disk (conn s) = Some t" using eq t by simp
  have "migrate_json_to_sqlite eng planets db = report eng s"
    using loop st by (simp add: migrate_unfold)
  then show ?thesis using inv t d report_result [OF t(1) d] by auto
qed

lemma migrate_objects:
  assumes "list_all is_object planets"
  shows "fst (migrate_json_to_sqlite eng planets db) = None"
proof -
  obtain st s where loop: "insert_batches eng planets 0 (start_state planets) = (st, s)"
    by (cases "insert_batches eng planets 0 (start_state planets)")
  have st: "st = None"
  proof (cases st)
    case (Some e)
    then obtain m where "m < length planets" "\<not> is_object (planets ! m)"
      using loop loop_abort by blast
    then show ?thesis using assms by (simp add: list_all_length)
  qed simp
  from loop_inv [OF loop] st obtain t where
    t: "in_txn (conn s) = Some t" unfolding loader_inv_def by blast
  have eq: "on_disk (conn s) = in_txn (conn s)"
    using loop st by (intro insert_batches_committed [of eng planets 0 "start_state planets" s])
      (simp_all add: start_state_def)
  have "migrate_json_to_sqlite eng planets db = report eng s"
    using loop st by (simp add: migrate_unfold)
  then show ?thesis using report_result [OF t] eq t by simp
qed

lemma persisted_complete:
  assumes "fst (migrate_json_to_sqlite eng planets db) = None"
  shows "persisted_rows (migrate_json_to_sqlite eng planets db) = loaded_rows eng planets"
  using migrate_complete [OF assms] by (auto simp: persisted_rows_def)

lemma persisted_prefix:
  "\<exists>m \<le> length planets.
     prefix (persisted_rows (migrate_json_to_sqlite eng planets db)) (loaded_rows eng (take m planets))"
proof (cases "fst (migrate_json_to_sqlite eng planets db)")
  case None
  then show ?thesis
    using persisted_complete [OF None] by (intro exI [of _ "length planets"]) simp
next
  case (Some e)
  obtain st s where loop: "insert_batches eng planets 0 (start_state planets) = (st, s)"
    by (cases "insert_batches eng planets 0 (start_state planets)")
  have st: "st \<noteq> None"
  proof
    assume n: "st = None"
    from loop_inv [OF loop] n obtain t where
      t: "in_txn (conn s) = Some t" unfolding loader_inv_def by blast
    have eq: "on_disk (conn s) = in_txn (conn s)"
      using loop n by (intro insert_batches_committed [of eng planets 0 "start_state planets" s])
        (simp_all add: start_state_def)
    have "migrate_json_to_sqlite eng planets db = report eng s"
      using loop n by (simp add: migrate_unfold)
    then show False using report_result [OF t] eq t Some by simp
  qed
  then have res: "migrate_json_to_sqlite eng planets db = (st, s)"
    using loop by (auto simp: migrate_unfold)
  from loop_inv [OF loop] obtain m where
    m: "m \<le> length planets" "loader_inv eng (take m planets) s" by blast
  from m(2) obtain t td where "in_txn (conn s) = Some t" "on_disk (conn s) = Some td"
    "tbl_rows t = loaded_rows eng (take m planets)" "prefix (tbl_rows td) (tbl_rows t)"
    unfolding loader_inv_def by blast
  then show ?thesis using m(1) res by (auto simp: persisted_rows_def)
qed

section \<open>The rows a list of records loads\<close>

lemma record_name_values:
  assumes "record_name eng p \<noteq> SNull"
  shows "cell (new_row eng k sq (record_values p)) ''pl_name'' = record_name eng p"
proof (cases "bound_values p")
  case (Inl e)
  then show ?thesis using assms by (simp add: record_name_def)
next
  case (Inr vs)
  then obtain v vs' where "vs = v # vs'" using bound_values_cons by blast
  then show ?thesis using Inr by (simp add: record_name_def record_values_def new_row_name)
qed

lemma loaded_names:
  "map (\<lambda>r. cell r ''pl_name'') (loaded_rows eng pre)
     = rev (remdups (rev (filter (\<lambda>n. n \<noteq> SNull) (map (record_name eng) pre))))"
proof (induction pre rule: rev_induct)
  case Nil
  then show ?case by simp
next
  case (snoc p pre)
  show ?case
  proof (cases "accepts eng (loaded_rows eng pre) p")
    case True
    then have n: "record_name eng p \<noteq> SNull"
      and f: "record_name eng p \<notin> set (map (\<lambda>r. cell r ''pl_name'') (loaded_rows eng pre))"
      by (simp_all add: accepts_def)
    have f': "record_name eng p \<notin> set (filter (\<lambda>n. n \<noteq> SNull) (map (record_name eng) pre))"
      using f unfolding snoc.IH by simp
    show ?thesis
      using True n f' snoc.IH
      by (simp add: loaded_rows_snoc load_step_def record_name_values)
  next
    case False
    then have "record_name eng p = SNull
        \<or> record_name eng p \<in> set (filter (\<lambda>n. n \<noteq> SNull) (map (record_name eng) pre))"
      unfolding accepts_def snoc.IH by auto
    then show ?thesis
      using False snoc.IH by (auto simp: loaded_rows_snoc load_step_def)
  qed
qed

lemma loaded_names_set:
  "set (map (\<lambda>r. cell r ''pl_name'') (loaded_rows eng pre))
     = record_name eng ` set pre - {SNull}"
  unfolding loaded_names by auto

lemma loaded_names_distinct:
  "distinct (map (\<lambda>r. cell r ''pl_name'') (loaded_rows eng pre))"
  unfolding loaded_names by simp

lemma loaded_rows_length:
  "length (loaded_rows eng pre) = card (record_name eng ` set pre - {SNull})"
proof -
  have "length (loaded_rows eng pre) = length (map (\<lambda>r. cell r ''pl_name'') (loaded_rows eng pre))"
    by simp
  also have "\<dots> = card (set (map (\<lambda>r. cell r ''pl_name'') (loaded_rows eng pre)))"
    using loaded_names_distinct by (rule distinct_card [symmetric])
  finally show ?thesis unfolding loaded_names_set .
qed

lemma loaded_rows_nth:
  assumes "j < length (loaded_rows eng pre)"
  shows "\<exists>i < length pre. loaded_rows eng pre ! j = new_row eng i j (record_values (pre ! i))
           \<and> record_name eng (pre ! i) \<noteq> SNull
           \<and> (\<forall>i' < i. record_name eng (pre ! i') \<noteq> record_name eng (pre ! i))"
  using assms
proof (induction pre arbitrary: j rule: rev_induct)
  case Nil
  then show ?case by simp
next
  case (snoc p pre)
  let ?rs = "loaded_rows eng pre"
  have old: "\<exists>i < length (pre @ [p]).
               ?rs ! j = new_row eng i j (record_values ((pre @ [p]) ! i))
               \<and> record_name eng ((pre @ [p]) ! i) \<noteq> SNull
               \<and> (\<forall>i' < i. record_name eng ((pre @ [p]) ! i') \<noteq> record_name eng ((pre @ [p]) ! i))"
    if "j < length ?rs"
  proof -
    from snoc.IH [OF that] obtain i where
      i: "i < length pre" "?rs ! j = new_row eng i j (record_values (pre ! i))"
         "record_name eng (pre ! i) \<noteq> SNull"
         "\<forall>i' < i. record_name eng (pre ! i') \<noteq> record_name eng (pre ! i)"
      by blast
    show ?thesis
      by (rule exI [of _ i]) (use i in \<open>auto simp: nth_append\<close>)
  qed
  show ?case
  proof (cases "accepts eng ?rs p")
    case False
    then have eq: "loaded_rows eng (pre @ [p]) = ?rs"
      by (simp add: loaded_rows_snoc load_step_def)
    show ?thesis using old snoc.prems unfolding eq by simp
  next
    case True
    then have eq: "loaded_rows eng (pre @ [p])
                     = ?rs @ [new_row eng (length pre) (length ?rs) (record_values p)]"
      by (simp add: loaded_rows_snoc load_step_def)
    show ?thesis
    proof (cases "j < length ?rs")
      case True
      then show ?thesis using old unfolding eq by (simp add: nth_append)
    next
      case False
      then have j: "j = length ?rs" using snoc.prems unfolding eq by simp
      have n: "record_name eng p \<noteq> SNull" using \<open>accepts eng ?rs p\<close> by (simp add: accepts_def)
      have "record_name eng p \<notin> record_name eng ` set pre - {SNull}"
        using \<open>accepts eng ?rs p\<close> loaded_names_set [of eng pre] by (auto simp: accepts_def)
      then have "\<forall>i' < length pre. record_name eng (pre ! i') \<noteq> record_name eng p"
        using n by (metis DiffI imageI nth_mem singletonD)
      then show ?thesis
        unfolding eq j
        by (intro exI [of _ "length pre"]) (use n in \<open>auto simp: nth_append\<close>)
    qed
  qed
qed

lemma loaded_rows_first:
  assumes "i < length pre" and "record_name eng (pre ! i) \<noteq> SNull"
    and "\<forall>i' < i. record_name eng (pre ! i') \<noteq> record_name eng (pre ! i)"
  shows "\<exists>j < length (loaded_rows eng pre).
           loaded_rows eng pre ! j = new_row eng i j (record_values (pre ! i))"
  using assms
proof (induction pre rule: rev_induct)
  case Nil
  then show ?case by simp
next
  case (snoc p pre)
  let ?rs = "loaded_rows eng pre"
  have sub: "\<exists>j < length ?rs. ?rs ! j = y \<Longrightarrow>
             \<exists>j < length (loaded_rows eng (pre @ [p])). loaded_rows eng (pre @ [p]) ! j = y" for y
    by (auto simp: loaded_rows_snoc load_step_def nth_append intro: less_SucI)
  show ?case
  proof (cases "i < length pre")
    case True
    have "\<exists>j < length ?rs. ?rs ! j = new_row eng i j (record_values (pre ! i))"
      using snoc.IH True snoc.prems by (simp add: nth_append)
    then obtain j where j: "j < length ?rs" "?rs ! j = new_row eng i j (record_values (pre ! i))"
      by blast
    have "j < length (loaded_rows eng (pre @ [p]))
          \<and> loaded_rows eng (pre @ [p]) ! j = new_row eng i j (record_values (pre ! i))"
      using j by (auto simp: loaded_rows_snoc load_step_def nth_append)
    then show ?thesis using True by (auto simp: nth_append)
  next
    case False
    then have i: "i = length pre" using snoc.prems(1) by simp
    have n: "record_name eng p \<noteq> SNull" using snoc.prems(2) i by simp
    have "\<forall>i' < length pre. record_name eng (pre ! i') \<noteq> record_name eng p"
      using snoc.prems(3) i by (auto simp: nth_append)
    then have "record_name eng p \<notin> record_name eng ` set pre"
      by (auto simp: in_set_conv_nth)
    then have "accepts eng ?rs p"
      using n loaded_names_set [of eng pre] by (simp add: accepts_def)
    then have eq: "loaded_rows eng (pre @ [p])
                     = ?rs @ [new_row eng (length pre) (length ?rs) (record_values p)]"
      by (simp add: loaded_rows_snoc load_step_def)
    show ?thesis
      unfolding eq i by (intro exI [of _ "length ?rs"]) simp
  qed
qed

lemma bind_param_stored: "storable v \<Longrightarrow> bind_param v = Inr (stored v)"
  by (cases v) auto

lemma bind_param_fail: "\<not> storable v \<Longrightarrow> \<exists>e. bind_param v = Inl e"
  by (cases v) auto

lemma bind_params_stored: "list_all storable ps \<Longrightarrow> bind_params ps = Inr (map stored ps)"
  by (induction ps) (auto simp: bind_param_stored)

lemma bind_params_fail: "\<not> list_all storable ps \<Longrightarrow> \<exists>e. bind_params ps = Inl e"
proof (induction ps)
  case Nil
  then show ?case by simp
next
  case (Cons p ps)
  show ?case
  proof (cases "storable p")
    case True
    then have "\<not> list_all storable ps" using Cons.prems by simp
    then obtain e where "bind_params ps = Inl e" using Cons.IH by blast
    then show ?thesis using True by (simp add: bind_param_stored)
  next
    case False
    then obtain e where "bind_param p = Inl e" using bind_param_fail by blast
    then show ?thesis by simp
  qed
qed

lemma insert_parameters_fields:
  "insert_parameters (JObj d) = Inr (map (field_value (JObj d)) record_fields)"
  by (simp add: record_fields_def field_value_def dict_get_def dict_get_default_def)

lemma storable_field_value:
  "storable (field_value p f) \<longleftrightarrow> (case field p f of None \<Rightarrow> True | Some v \<Rightarrow> storable v)"
  by (simp add: field_value_def split: option.split)

lemma unstorable_fields:
  "list_ex (\<lambda>f. case field p f of None \<Rightarrow> False | Some v \<Rightarrow> \<not> storable v) fs
     \<longleftrightarrow> \<not> list_all storable (map (field_value p) fs)"
  by (induction fs) (auto simp: storable_field_value split: option.splits)

lemma bound_values_storable:
  assumes "list_all storable (map (field_value (JObj d)) record_fields)"
  shows "bound_values (JObj d) = Inr (map (\<lambda>f. stored (field_value (JObj d) f)) record_fields)"
  unfolding bound_values_def insert_parameters_fields
  using bind_params_stored [OF assms] by (simp add: comp_def)

lemma bound_values_unstorable:
  assumes "\<not> list_all storable (map (field_value (JObj d)) record_fields)"
  shows "\<exists>e. bound_values (JObj d) = Inl e"
  unfolding bound_values_def insert_parameters_fields
  using bind_params_fail [OF assms] by auto

lemma record_name_valid:
  assumes "valid_record p"
  shows "record_name eng p = (if malformed p then SNull else SText (the (name_text p)))"
proof -
  from assms obtain d where p: "p = JObj d" by (cases p) (simp_all add: valid_record_def)
  show ?thesis
  proof (cases "list_all storable (map (field_value p) record_fields)")
    case False
    then have m: "malformed p" by (simp add: malformed_def unstorable_fields)
    from False obtain e where "bound_values p = Inl e"
      using bound_values_unstorable p by blast
    then show ?thesis using m by (simp add: record_name_def)
  next
    case True
    then have b: "bound_values p = Inr (map (\<lambda>f. stored (field_value p f)) record_fields)"
      using bound_values_storable p by blast
    have h: "hd (map (\<lambda>f. stored (field_value p f)) record_fields)
               = stored (field_value p ''pl_name'')"
      by (simp add: record_fields_def)
    have m: "malformed p \<longleftrightarrow> name_text p = None"
      using True assms by (simp add: malformed_def unstorable_fields valid_record_def)
    have rn: "record_name eng p = apply_affinity eng AffText (stored (field_value p ''pl_name''))"
      by (simp add: record_name_def b h)
    show ?thesis
    proof (cases "field p ''pl_name''")
      case None
      then show ?thesis by (simp add: rn m name_text_def field_value_def)
    next
      case (Some v)
      show ?thesis
      proof (cases v)
        case JNull
        then show ?thesis using Some by (simp add: rn m name_text_def field_value_def)
      next
        case (JStr s)
        then show ?thesis using Some by (simp add: rn m name_text_def field_value_def)
      qed (use assms Some in \<open>simp_all add: valid_record_def\<close>)
    qed
  qed
qed

lemma names_valid:
  assumes "list_all valid_record pre"
  shows "filter (\<lambda>n. n \<noteq> SNull) (map (record_name eng) pre) = map SText (stored_names pre)"
  using assms by (induction pre) (auto simp: stored_names_def record_name_valid)

lemma remdups_map_inj: "inj f \<Longrightarrow> remdups (map f xs) = map f (remdups xs)"
  by (induction xs) (auto simp: inj_image_mem_iff)

lemma loaded_names_valid:
  assumes "list_all valid_record pre"
  shows "map (\<lambda>r. cell r ''pl_name'') (loaded_rows eng pre)
           = map SText (rev (remdups (rev (stored_names pre))))"
proof -
  have i: "inj SText" by (simp add: inj_def)
  show ?thesis
    unfolding loaded_names names_valid [OF assms]
    by (simp only: rev_map remdups_map_inj [OF i])
qed

lemma repeats_card:
  "card {i. i < length xs \<and> (\<exists>j<i. xs ! j = xs ! i)} = length xs - card (set xs)"
proof (induction xs rule: rev_induct)
  case Nil
  then show ?case by simp
next
  case (snoc x xs)
  let ?D = "\<lambda>ys. {i. i < length ys \<and> (\<exists>j<i. ys ! j = ys ! i)}"
  have fin: "finite (?D xs)" by simp
  have mem: "x \<in> set xs \<longleftrightarrow> (\<exists>j<length xs. xs ! j = x)"
    by (auto simp: in_set_conv_nth)
  have D: "?D (xs @ [x]) = ?D xs \<union> (if x \<in> set xs then {length xs} else {})"
  proof (rule set_eqI)
    fix i
    show "i \<in> ?D (xs @ [x]) \<longleftrightarrow> i \<in> ?D xs \<union> (if x \<in> set xs then {length xs} else {})"
    proof (cases "i < length xs")
      case True
      have e1: "(xs @ [x]) ! i = xs ! i" using True by (simp add: nth_append)
      have e2: "(\<exists>j<i. (xs @ [x]) ! j = xs ! i) \<longleftrightarrow> (\<exists>j<i. xs ! j = xs ! i)"
      proof
        assume "\<exists>j<i. (xs @ [x]) ! j = xs ! i"
        then obtain j where j: "j < i" "(xs @ [x]) ! j = xs ! i" by blast
        then have "xs ! j = xs ! i" using True by (simp add: nth_append)
        then show "\<exists>j<i. xs ! j = xs ! i" using j(1) by blast
      next
        assume "\<exists>j<i. xs ! j = xs ! i"
        then obtain j where j: "j < i" "xs ! j = xs ! i" by blast
        then have "(xs @ [x]) ! j = xs ! i" using True by (simp add: nth_append)
        then show "\<exists>j<i. (xs @ [x]) ! j = xs ! i" using j(1) by blast
      qed
      have "i \<noteq> length xs" using True by simp
      then show ?thesis using True e1 e2 by simp
    next
      case False
      show ?thesis
      proof (cases "i = length xs")
        case True
        have e3: "(xs @ [x]) ! length xs = x" by simp
        have e4: "(\<exists>j<length xs. (xs @ [x]) ! j = x) \<longleftrightarrow> (\<exists>j<length xs. xs ! j = x)"
        proof
          assume "\<exists>j<length xs. (xs @ [x]) ! j = x"
          then obtain j where j: "j < length xs" "(xs @ [x]) ! j = x" by blast
          then have "xs ! j = x" by (simp add: nth_append)
          then show "\<exists>j<length xs. xs ! j = x" using j(1) by blast
        next
          assume "\<exists>j<length xs. xs ! j = x"
          then obtain j where j: "j < length xs" "xs ! j = x" by blast
          then have "(xs @ [x]) ! j = x" by (simp add: nth_append)
          then show "\<exists>j<length xs. (xs @ [x]) ! j = x" using j(1) by blast
        qed
        show ?thesis unfolding True using e3 e4 mem by simp
      next
        case False
        then show ?thesis using \<open>\<not> i < length xs\<close> by simp
      qed
    qed
  qed
  have notin: "length xs \<notin> ?D xs" by simp
  have le: "card (set xs) \<le> length xs" by (rule card_length)
  show ?case
  proof (cases "x \<in> set xs")
    case True
    then have "card (?D (xs @ [x])) = Suc (card (?D xs))"
      unfolding D using fin notin by simp
    moreover have "set (xs @ [x]) = set xs" using True by auto
    ultimately show ?thesis using snoc.IH le by simp
  next
    case False
    then have "card (?D (xs @ [x])) = card (?D xs)" unfolding D by simp
    moreover have "card (set (xs @ [x])) = Suc (card (set xs))" using False by simp
    ultimately show ?thesis using snoc.IH by simp
  qed
qed

lemma process_planet_counters:
  "(inserted (snd (process_planet eng p s)) = inserted s + 1
      \<and> skipped (snd (process_planet eng p s)) = skipped s)
   \<or> (inserted (snd (process_planet eng p s)) = inserted s
      \<and> skipped (snd (process_planet eng p s)) = skipped s + 1)"
proof (cases "try_insert eng p s")
  case (Inr s')
  then have "inserted s' = inserted s + 1 \<and> skipped s' = skipped s"
    by (auto simp: try_insert_def split: sum.splits)
  then show ?thesis using Inr by (simp add: process_planet_def)
next
  case (Inl e)
  then show ?thesis
    by (auto simp: process_planet_def Let_def split: sum.splits exn.splits)
qed

text \<open>
  C10. When a run goes through the whole input without a fatal error, the final
  \<open>inserted\<close> and \<open>skipped\<close> counters add up to the length of the input array, and these are
  the two numbers of the summary line. Every record moves exactly one of the two counters,
  by one.
\<close>

theorem counters_cover_input:
  assumes "fst (migrate_json_to_sqlite eng planets db) = None"
  shows "inserted (snd (migrate_json_to_sqlite eng planets db))
           + skipped (snd (migrate_json_to_sqlite eng planets db)) = length planets
         \<and> InsertedSkipped (inserted (snd (migrate_json_to_sqlite eng planets db)))
                            (skipped (snd (migrate_json_to_sqlite eng planets db)))
             \<in> set (printed (snd (migrate_json_to_sqlite eng planets db)))
         \<and> (\<forall>p s. (inserted (snd (process_planet eng p s)) = inserted s + 1
                      \<and> skipped (snd (process_planet eng p s)) = skipped s)
                   \<or> (inserted (snd (process_planet eng p s)) = inserted s
                      \<and> skipped (snd (process_planet eng p s)) = skipped s + 1))"
proof -
  from migrate_complete [OF assms] obtain s t where
    inv: "loader_inv eng planets s"
    and t: "in_txn (conn s) = Some t" "on_disk (conn s) = Some t"
    and res: "migrate_json_to_sqlite eng planets db
                = (None, s\<lparr>printed := printed s @ report_lines eng s (tbl_rows t)\<rparr>)"
    by blast
  have "inserted s + skipped s = length planets"
    using inv unfolding loader_inv_def by blast
  then show ?thesis
    using process_planet_counters by (simp add: res report_lines_def)
qed

theorem counters_cover_input_witness:
  "fst (migrate_json_to_sqlite plain_engine example_planets None) = None
   \<and> inserted (snd (migrate_json_to_sqlite plain_engine example_planets None)) = 2
   \<and> skipped (snd (migrate_json_to_sqlite plain_engine example_planets None)) = 3
   \<and> length example_planets = 5"
proof -
  have h: "fst (migrate_json_to_sqlite plain_engine example_planets None) = None"
    by code_simp
  have i: "inserted (snd (migrate_json_to_sqlite plain_engine example_planets None)) = 2"
    by code_simp
  have l: "length example_planets = 5" by (simp add: example_planets_def)
  have "inserted (snd (migrate_json_to_sqlite plain_engine example_planets None))
          + skipped (snd (migrate_json_to_sqlite plain_engine example_planets None))
        = length example_planets"
    using counters_cover_input [OF h] by blast
  then show ?thesis using h i l by simp
qed

text \<open>
  C1. A valid input array is an array of objects whose name is a string, null or absent. A
  record is malformed when it has no name or holds, in one of the 18 fields, a value the
  store cannot take (an array, an object, an integer beyond 64 bits). The names are those
  of the records that are not malformed, in input order; a duplicate is a position whose
  name already stands at an earlier position. Then the run ends without a fatal error,
  and the number of rows it leaves in the table is the input length minus the duplicates
  minus the malformed records. The \<open>inserted\<close> counter and the printed row count are that
  number, and \<open>skipped\<close> is the number of duplicates plus the number of malformed records.
\<close>

theorem row_count:
  assumes "list_all valid_record planets"
  shows "let res = migrate_json_to_sqlite eng planets db;
             names = map (\<lambda>p. the (name_text p)) (filter (\<lambda>p. \<not> malformed p) planets);
             duplicates = card {i. i < length names \<and> (\<exists>j<i. names ! j = names ! i)};
             bad = length (filter malformed planets);
             kept = length planets - duplicates - bad
         in fst res = None
            \<and> length (persisted_rows res) = kept
            \<and> inserted (snd res) = kept
            \<and> skipped (snd res) = duplicates + bad
            \<and> TotalInDatabase kept \<in> set (printed (snd res))
            \<and> InsertedSkipped kept (duplicates + bad) \<in> set (printed (snd res))
            \<and> duplicates = length names - card (set names)"
proof -
  let ?res = "migrate_json_to_sqlite eng planets db"
  let ?names = "map (\<lambda>p. the (name_text p)) (filter (\<lambda>p. \<not> malformed p) planets)"
  let ?dup = "card {i. i < length ?names \<and> (\<exists>j<i. ?names ! j = ?names ! i)}"
  let ?bad = "length (filter malformed planets)"
  have obj: "list_all is_object planets"
    using assms by (simp add: list_all_iff valid_record_def)
  have none: "fst ?res = None" using obj by (rule migrate_objects)
  from migrate_complete [OF none] obtain s t where
    inv: "loader_inv eng planets s"
    and t: "in_txn (conn s) = Some t" "on_disk (conn s) = Some t"
    and rows: "tbl_rows t = loaded_rows eng planets"
    and res: "?res = (None, s\<lparr>printed := printed s @ report_lines eng s (tbl_rows t)\<rparr>)"
    by blast
  have ins: "inserted s = length (loaded_rows eng planets)"
    and tot: "inserted s + skipped s = length planets"
    using inv t rows unfolding loader_inv_def by auto
  have dup: "?dup = length ?names - card (set ?names)" by (rule repeats_card)
  have n: "?names = stored_names planets" by (simp add: stored_names_def)
  have "length (loaded_rows eng planets)
          = length (map (\<lambda>r. cell r ''pl_name'') (loaded_rows eng planets))" by simp
  also have "\<dots> = length (remdups (rev ?names))"
    unfolding loaded_names_valid [OF assms] n by simp
  also have "\<dots> = card (set ?names)"
    by (simp add: length_remdups_card_conv)
  finally have len: "length (loaded_rows eng planets) = card (set ?names)" .
  have split: "length planets = length ?names + ?bad"
    using sum_length_filter_compl [of "\<lambda>p. \<not> malformed p" planets] by simp
  have le: "card (set ?names) \<le> length ?names" by (rule card_length)
  have kept: "length planets - ?dup - ?bad = card (set ?names)"
    using dup split le by simp
  have sk: "skipped s = ?dup + ?bad"
    using tot ins len dup split le by simp
  have pr: "persisted_rows ?res = loaded_rows eng planets"
    using none by (rule persisted_complete)
  show ?thesis
    unfolding Let_def
    using none pr ins len kept sk dup rows
    by (simp add: res report_lines_def)
qed

theorem row_count_witness:
  "list_all valid_record example_planets
   \<and> length example_planets = 5
   \<and> length (filter malformed example_planets) = 2
   \<and> map (\<lambda>p. the (name_text p)) (filter (\<lambda>p. \<not> malformed p) example_planets)
       = [''Kepler-22 b'', ''Kepler-22 b'', ''51 Peg b'']
   \<and> length (persisted_rows (migrate_json_to_sqlite plain_engine example_planets None)) = 2
   \<and> skipped (snd (migrate_json_to_sqlite plain_engine example_planets None)) = 3"
proof -
  have h: "list_all valid_record example_planets" by code_simp
  have b: "length (filter malformed example_planets) = 2" by code_simp
  have n: "map (\<lambda>p. the (name_text p)) (filter (\<lambda>p. \<not> malformed p) example_planets)
             = [''Kepler-22 b'', ''Kepler-22 b'', ''51 Peg b'']" by code_simp
  have c: "card (set [''Kepler-22 b'', ''Kepler-22 b'', ''51 Peg b'']) = 2" by simp
  have l: "length example_planets = 5" by (simp add: example_planets_def)
  show ?thesis
    using row_count [OF h, of plain_engine None] h b l c
    unfolding Let_def n by simp
qed

lemma new_row_columns:
  "map fst (new_row eng k sq vs)
     = [''id'', ''pl_name'', ''hostname'', ''sy_dist'', ''pl_orbper'', ''pl_rade'',
        ''pl_bmasse'', ''pl_eqt'', ''pl_orbsmax'', ''pl_orbeccen'', ''st_spectype'',
        ''st_teff'', ''st_rad'', ''st_mass'', ''disc_year'', ''discoverymethod'',
        ''ra'', ''dec'', ''default_flag'', ''created_at'']"
  by (simp add: new_row_def planets_columns_def)

lemma map_of_zip_notin: "k \<notin> set xs \<Longrightarrow> map_of (zip xs ys) k = None"
  by (auto simp: map_of_eq_None_iff dest: set_zip_leftD)

lemma new_row_id: "map_of (new_row eng k sq vs) ''id'' = Some (SInt (int sq + 1))"
proof -
  have "map_of (zip insert_columns vs) ''id'' = None"
    by (rule map_of_zip_notin) (simp add: insert_columns_def)
  then show ?thesis
    by (simp add: new_row_def planets_columns_def column_value_def)
qed

lemma new_row_created_at:
  "map_of (new_row eng k sq vs) ''created_at''
     = Some (eng_convert eng AffNumeric (SText (eng_now eng k)))"
proof -
  have "map_of (zip insert_columns vs) ''created_at'' = None"
    by (rule map_of_zip_notin) (simp add: insert_columns_def)
  then show ?thesis
    by (simp add: new_row_def planets_columns_def column_value_def)
qed

lemma prefix_nth: "prefix xs ys \<Longrightarrow> j < length xs \<Longrightarrow> xs ! j = ys ! j"
  by (auto simp: prefix_def nth_append)

lemma persisted_row:
  assumes "j < length (persisted_rows (migrate_json_to_sqlite eng planets db))"
  shows "\<exists>i < length planets.
           persisted_rows (migrate_json_to_sqlite eng planets db) ! j
             = new_row eng i j (record_values (planets ! i))
           \<and> record_name eng (planets ! i) \<noteq> SNull
           \<and> (\<forall>i' < i. record_name eng (planets ! i') \<noteq> record_name eng (planets ! i))"
proof -
  let ?rs = "persisted_rows (migrate_json_to_sqlite eng planets db)"
  obtain m where m: "m \<le> length planets" "prefix ?rs (loaded_rows eng (take m planets))"
    using persisted_prefix by blast
  have j: "j < length (loaded_rows eng (take m planets))"
    using assms m(2) by (auto simp: prefix_def)
  from loaded_rows_nth [OF j] obtain i where
    i: "i < length (take m planets)"
       "loaded_rows eng (take m planets) ! j = new_row eng i j (record_values (take m planets ! i))"
       "record_name eng (take m planets ! i) \<noteq> SNull"
       "\<forall>i' < i. record_name eng (take m planets ! i') \<noteq> record_name eng (take m planets ! i)"
    by blast
  have im: "i < m" "i < length planets" using i(1) by simp_all
  have eq: "?rs ! j = loaded_rows eng (take m planets) ! j"
    using m(2) assms by (rule prefix_nth)
  show ?thesis
    by (rule exI [of _ i]) (use i im eq in auto)
qed

text \<open>
  C8 (as amended). Whatever the database file held, \<open>create_database\<close> returns a connection
  to a committed, empty table of exactly 20 columns: the identifier \<open>id\<close>, an integer primary
  key with \<open>AUTOINCREMENT\<close>, the 18 data fields of the record, and \<open>created_at\<close>, a
  timestamp with the default \<open>CURRENT_TIMESTAMP\<close>; and 7 indexes, on the name, the discovery
  year, the discovery method, the planet radius, the planet mass, the host effective
  temperature and the system distance. Every row a run leaves has these 20 columns; the
  identifier of the \<open>j\<close>-th row (counted from 0) is \<open>j + 1\<close>, and its creation timestamp is the
  engine's current timestamp at the statement that inserted it.
\<close>

theorem table_schema:
  "\<exists>c t. create_database db_file = Inr c \<and> on_disk c = Some t \<and> in_txn c = Some t
         \<and> tbl_rows t = []
         \<and> length (tbl_columns t) = 20
         \<and> map col_name (tbl_columns t)
             = [''id'', ''pl_name'', ''hostname'', ''sy_dist'', ''pl_orbper'', ''pl_rade'',
                ''pl_bmasse'', ''pl_eqt'', ''pl_orbsmax'', ''pl_orbeccen'', ''st_spectype'',
                ''st_teff'', ''st_rad'', ''st_mass'', ''disc_year'', ''discoverymethod'',
                ''ra'', ''dec'', ''default_flag'', ''created_at'']
         \<and> map col_type (tbl_columns t)
             = [INTEGER, TEXT, TEXT, REAL, REAL, REAL, REAL, REAL, REAL, REAL, TEXT,
                REAL, REAL, REAL, INTEGER, TEXT, REAL, REAL, INTEGER, TIMESTAMP]
         \<and> map col_constraints (tbl_columns t)
             = [[PrimaryKeyAutoincrement], [NotNull, Unique], [], [], [], [], [], [], [], [],
                [], [], [], [], [], [], [], [], [], [DefaultCurrentTimestamp]]
         \<and> length (tbl_indexes t) = 7
         \<and> map idx_column (tbl_indexes t)
             = [''pl_name'', ''disc_year'', ''discoverymethod'', ''pl_rade'', ''pl_bmasse'',
                ''st_teff'', ''sy_dist'']
         \<and> map idx_name (tbl_indexes t)
             = [''idx_pl_name'', ''idx_disc_year'', ''idx_discoverymethod'', ''idx_pl_rade'',
                ''idx_pl_bmasse'', ''idx_st_teff'', ''idx_sy_dist'']
         \<and> (\<forall>j < length (persisted_rows (migrate_json_to_sqlite eng planets db_file)).
               map fst (persisted_rows (migrate_json_to_sqlite eng planets db_file) ! j)
                 = map col_name (tbl_columns t)
               \<and> map_of (persisted_rows (migrate_json_to_sqlite eng planets db_file) ! j) ''id''
                   = Some (SInt (int j + 1))
               \<and> (\<exists>i < length planets.
                     map_of (persisted_rows (migrate_json_to_sqlite eng planets db_file) ! j)
                            ''created_at''
                       = Some (eng_convert eng AffNumeric (SText (eng_now eng i)))))"
proof -
  let ?c = "\<lparr>on_disk = Some planets_table0, in_txn = Some planets_table0\<rparr>"
  have rows: "\<forall>j < length (persisted_rows (migrate_json_to_sqlite eng planets db_file)).
               map fst (persisted_rows (migrate_json_to_sqlite eng planets db_file) ! j)
                 = map col_name (tbl_columns planets_table0)
               \<and> map_of (persisted_rows (migrate_json_to_sqlite eng planets db_file) ! j) ''id''
                   = Some (SInt (int j + 1))
               \<and> (\<exists>i < length planets.
                     map_of (persisted_rows (migrate_json_to_sqlite eng planets db_file) ! j)
                            ''created_at''
                       = Some (eng_convert eng AffNumeric (SText (eng_now eng i))))"
  proof (intro allI impI)
    fix j
    assume "j < length (persisted_rows (migrate_json_to_sqlite eng planets db_file))"
    from persisted_row [OF this] obtain i where
      i: "i < length planets"
         "persisted_rows (migrate_json_to_sqlite eng planets db_file) ! j
            = new_row eng i j (record_values (planets ! i))"
      by blast
    have cn: "map col_name (tbl_columns planets_table0)
                = map fst (new_row eng i j (record_values (planets ! i)))"
      by (simp add: new_row_columns) (simp add: planets_table0_def planets_columns_def)
    show "map fst (persisted_rows (migrate_json_to_sqlite eng planets db_file) ! j)
                 = map col_name (tbl_columns planets_table0)
               \<and> map_of (persisted_rows (migrate_json_to_sqlite eng planets db_file) ! j) ''id''
                   = Some (SInt (int j + 1))
               \<and> (\<exists>i < length planets.
                     map_of (persisted_rows (migrate_json_to_sqlite eng planets db_file) ! j)
                            ''created_at''
                       = Some (eng_convert eng AffNumeric (SText (eng_now eng i))))"
      unfolding i(2) using i(1) cn new_row_id new_row_created_at by auto
  qed
  have sch: "length (tbl_columns planets_table0) = 20
         \<and> map col_name (tbl_columns planets_table0)
             = [''id'', ''pl_name'', ''hostname'', ''sy_dist'', ''pl_orbper'', ''pl_rade'',
                ''pl_bmasse'', ''pl_eqt'', ''pl_orbsmax'', ''pl_orbeccen'', ''st_spectype'',
                ''st_teff'', ''st_rad'', ''st_mass'', ''disc_year'', ''discoverymethod'',
                ''ra'', ''dec'', ''default_flag'', ''created_at'']
         \<and> map col_type (tbl_columns planets_table0)
             = [INTEGER, TEXT, TEXT, REAL, REAL, REAL, REAL, REAL, REAL, REAL, TEXT,
                REAL, REAL, REAL, INTEGER, TEXT, REAL, REAL, INTEGER, TIMESTAMP]
         \<and> map col_constraints (tbl_columns planets_table0)
             = [[PrimaryKeyAutoincrement], [NotNull, Unique], [], [], [], [], [], [], [], [],
                [], [], [], [], [], [], [], [], [], [DefaultCurrentTimestamp]]"
    by (simp add: planets_table0_def planets_columns_def)
  have idx: "length (tbl_indexes planets_table0) = 7
         \<and> map idx_column (tbl_indexes planets_table0)
             = [''pl_name'', ''disc_year'', ''discoverymethod'', ''pl_rade'', ''pl_bmasse'',
                ''st_teff'', ''sy_dist'']
         \<and> map idx_name (tbl_indexes planets_table0)
             = [''idx_pl_name'', ''idx_disc_year'', ''idx_discoverymethod'', ''idx_pl_rade'',
                ''idx_pl_bmasse'', ''idx_st_teff'', ''idx_sy_dist'']"
    by (simp add: planets_table0_def)
  have e: "tbl_rows planets_table0 = []" by (simp add: planets_table0_def)
  have cd: "create_database db_file = Inr ?c" by (rule create_database_result)
  have od: "on_disk ?c = Some planets_table0" "in_txn ?c = Some planets_table0" by simp_all
  note s = sch [THEN conjunct1] sch [THEN conjunct2, THEN conjunct1]
    sch [THEN conjunct2, THEN conjunct2, THEN conjunct1]
    sch [THEN conjunct2, THEN conjunct2, THEN conjunct2]
    idx [THEN conjunct1] idx [THEN conjunct2, THEN conjunct1]
    idx [THEN conjunct2, THEN conjunct2]
  show ?thesis
    by (rule exI [of _ ?c], rule exI [of _ planets_table0])
       (intro conjI cd od e s rows)
qed

text \<open>
  The example run leaves two rows, with the identifiers 1 and 2, each of 20 columns.
\<close>

theorem table_schema_witness:
  "length (persisted_rows (migrate_json_to_sqlite plain_engine example_planets None)) = 2
   \<and> map_of (persisted_rows (migrate_json_to_sqlite plain_engine example_planets None) ! 1) ''id''
       = Some (SInt 2)
   \<and> length (persisted_rows (migrate_json_to_sqlite plain_engine example_planets None) ! 1) = 20"
proof -
  define rs where "rs = persisted_rows (migrate_json_to_sqlite plain_engine example_planets None)"
  have l: "length rs = 2" unfolding rs_def by code_simp
  then have j: "1 < length rs" by simp
  note ts = table_schema [of None plain_engine example_planets, folded rs_def]
  from ts obtain t :: table where
    n: "length (tbl_columns t) = 20"
    and r: "\<forall>j < length rs. map fst (rs ! j) = map col_name (tbl_columns t)
               \<and> map_of (rs ! j) ''id'' = Some (SInt (int j + 1))
               \<and> (\<exists>i < length example_planets. map_of (rs ! j) ''created_at''
                       = Some (eng_convert plain_engine AffNumeric
                                 (SText (eng_now plain_engine i))))"
    by (elim exE conjE) blast
  from r j have a: "map fst (rs ! 1) = map col_name (tbl_columns t)"
    and b: "map_of (rs ! 1) ''id'' = Some (SInt (int 1 + 1))"
    by blast+
  have "length (map fst (rs ! 1)) = 20"
    unfolding a using n by simp
  then show ?thesis using l b unfolding rs_def by simp
qed

text \<open>
  C8 as stated fails: the table that \<open>create_database\<close> creates has 20 columns, not 19 (the
  identifier, the 18 data fields and the creation timestamp).
\<close>

theorem table_has_20_columns:
  "\<not> isl (create_database None)
   \<and> length (tbl_columns (the (on_disk (projr (create_database None))))) = 20
   \<and> length (tbl_columns (the (on_disk (projr (create_database None))))) \<noteq> 19
   \<and> length (filter (\<lambda>c. col_name c \<notin> {''id'', ''created_at''})
                (tbl_columns (the (on_disk (projr (create_database None)))))) = 18"
  by (simp add: create_database_result planets_table0_def planets_columns_def)

end
